theory Spec2Isabelle
  imports Complex_Main "HOL-Library.AList" "HOL-Library.Sublist" "HOL-Library.Multiset"
begin

section \<open>Constants (constants.ts, PHYSICS)\<close>

definition ROAD_LENGTH_CELLS :: nat where
  "ROAD_LENGTH_CELLS = 10"

definition MAX_CARS_PER_CELL :: real where
  "MAX_CARS_PER_CELL = 7"

definition WAVE_SPEED :: real where
  "WAVE_SPEED = 1"

definition MIN_GREEN_STEPS :: nat where
  "MIN_GREEN_STEPS = 3"

definition MAX_RED_STEPS :: nat where
  "MAX_RED_STEPS = 24"

definition FIXED_CYCLE_STEPS :: nat where
  "FIXED_CYCLE_STEPS = 6"

section \<open>DirectedRoad\<close>

text \<open>
  A JavaScript number is modelled as a real: every density that the engine can reach is a
  small integer (cells start at 0, the spawn block is 2, and flows are built from these by
  \<open>min\<close>, \<open>max\<close>, \<open>+\<close> and \<open>-\<close>), on which double arithmetic is exact.
  The field \<open>id\<close> of the source is \<open>id_road\<close> here, since \<open>id\<close> is the identity of HOL.
  The constructor always allocates \<open>ROAD_LENGTH_CELLS\<close> cells and no method resizes the
  array, so \<open>cells\<close> is never empty; on an empty array the source would read
  \<open>cells[-1]\<close> and store NaN, which the model does not represent.
\<close>

record DirectedRoad =
  id_road :: string
  u :: string
  v :: string
  cells :: "real list"
  isBoundary :: bool

definition new_DirectedRoad :: "string \<Rightarrow> string \<Rightarrow> string \<Rightarrow> bool \<Rightarrow> DirectedRoad" where
  "new_DirectedRoad i a b bnd =
     \<lparr>id_road = i, u = a, v = b, cells = replicate ROAD_LENGTH_CELLS 0, isBoundary = bnd\<rparr>"

definition getDemand :: "DirectedRoad \<Rightarrow> real" where
  "getDemand r = min (WAVE_SPEED * (cells r ! (length (cells r) - 1))) MAX_CARS_PER_CELL"

definition getSupply :: "DirectedRoad \<Rightarrow> real" where
  "getSupply r = max 0 (MAX_CARS_PER_CELL - cells r ! 0)"

definition getTotalCars :: "DirectedRoad \<Rightarrow> real" where
  "getTotalCars r = foldl (\<lambda>a b. a + b) 0 (cells r)"

definition getStoppedQueue :: "DirectedRoad \<Rightarrow> real" where
  "getStoppedQueue r = foldl (\<lambda>a b. a + b) 0 (filter (\<lambda>c. c > 2) (cells r))"

text \<open>
  The loop \<open>for (i = length - 2; i >= 0; i--)\<close> of \<open>stepPhysics\<close>: \<open>ctmLoop cs k new\<close>
  runs the iterations \<open>i = k - 1, ..., 0\<close>; it reads the frozen array \<open>cs\<close>
  (\<open>this.cells\<close>) and writes \<open>new\<close> (\<open>newCells\<close>).
\<close>

fun ctmLoop :: "real list \<Rightarrow> nat \<Rightarrow> real list \<Rightarrow> real list" where
  "ctmLoop cs 0 new = new"
| "ctmLoop cs (Suc i) new =
     (let flux = min (cs ! i) (MAX_CARS_PER_CELL - cs ! (i + 1));
          new1 = new[i := new ! i - flux];
          new2 = new1[i + 1 := new1 ! (i + 1) + flux]
      in ctmLoop cs i new2)"

text \<open>The two boundary assignments that precede the copy \<open>[...this.cells]\<close>.\<close>

definition boundaryUpdate :: "real list \<Rightarrow> real \<Rightarrow> real \<Rightarrow> real list" where
  "boundaryUpdate cs flowIn flowOut =
     (let n = length cs;
          cs1 = cs[n - 1 := max 0 (cs ! (n - 1) - flowOut)]
      in cs1[0 := cs1 ! 0 + flowIn])"

definition stepPhysics :: "DirectedRoad \<Rightarrow> real \<Rightarrow> real \<Rightarrow> DirectedRoad" where
  "stepPhysics r flowIn flowOut =
     (let frozen = boundaryUpdate (cells r) flowIn flowOut
      in r\<lparr>cells := ctmLoop frozen (length frozen - 1) frozen\<rparr>)"

section \<open>Intersection\<close>

text \<open>
  The keys \<open>'N'\<close>, \<open>'S'\<close>, \<open>'E'\<close>, \<open>'W'\<close> of \<open>inRoads\<close> and \<open>outRoads\<close>. A road object is
  shared between the engine's array \<open>roads\<close> and the two intersections it joins, and is
  mutated in place; the array is the store and an intersection holds the index of the
  road in it (the index the road gets when \<open>buildGrid\<close> pushes it).
\<close>

datatype dir = N | S | E | W

record Intersection =
  id_node :: string
  row :: nat
  col :: nat
  inRoads :: "dir \<Rightarrow> nat option"
  outRoads :: "dir \<Rightarrow> nat option"
  phase :: int
  phaseTimer :: nat

definition new_Intersection :: "string \<Rightarrow> nat \<Rightarrow> nat \<Rightarrow> Intersection" where
  "new_Intersection i r c =
     \<lparr>id_node = i, row = r, col = c, inRoads = (\<lambda>d. None), outRoads = (\<lambda>d. None),
      phase = 0, phaseTimer = 0\<rparr>"

text \<open>
  One of the four blocks of \<open>getPressure\<close>:
  \<^verbatim>\<open>if (this.inRoads[a]) { p += this.inRoads[a].getStoppedQueue();
     if (this.outRoads[b]) p -= this.outRoads[b].getTotalCars() * 0.5; }\<close>
\<close>

definition pressureBlock ::
  "DirectedRoad list \<Rightarrow> Intersection \<Rightarrow> dir \<Rightarrow> dir \<Rightarrow> real \<Rightarrow> real" where
  "pressureBlock rs node a b p =
     (case inRoads node a of
        None \<Rightarrow> p
      | Some i \<Rightarrow>
          (let p1 = p + getStoppedQueue (rs ! i)
           in case outRoads node b of
                None \<Rightarrow> p1
              | Some j \<Rightarrow> p1 - getTotalCars (rs ! j) * 0.5))"

definition getPressure :: "DirectedRoad list \<Rightarrow> Intersection \<Rightarrow> real \<times> real" where
  "getPressure rs node =
     (let p_ns = pressureBlock rs node S N (pressureBlock rs node N S 0);
          p_ew = pressureBlock rs node W E (pressureBlock rs node E W 0)
      in (max 0.1 p_ns, max 0.1 p_ew))"

datatype target = EXIT | Road nat

record transfer =
  src :: nat
  tgt :: target
  amount :: real

fun targetMap :: "dir \<Rightarrow> dir" where
  "targetMap N = S"
| "targetMap S = N"
| "targetMap E = W"
| "targetMap W = E"

definition allowedDirs :: "int \<Rightarrow> dir list" where
  "allowedDirs ph = (if ph = 0 then [N, S] else [E, W])"

text \<open>The loop \<open>for (const sDir of allowedDirs)\<close> of \<open>stepFlow\<close>.\<close>

fun stepFlowLoop ::
  "DirectedRoad list \<Rightarrow> Intersection \<Rightarrow> dir list \<Rightarrow> transfer list \<Rightarrow> transfer list" where
  "stepFlowLoop rs node [] transfers = transfers"
| "stepFlowLoop rs node (sDir # rest) transfers =
     (case inRoads node sDir of
        None \<Rightarrow> stepFlowLoop rs node rest transfers
      | Some source \<Rightarrow>
          (let tDir = targetMap sDir;
               demand = getDemand (rs ! source)
           in case outRoads node tDir of
                None \<Rightarrow>
                  stepFlowLoop rs node rest
                    (transfers @ [\<lparr>src = source, tgt = EXIT, amount = demand\<rparr>])
              | Some target \<Rightarrow>
                  (let supply = getSupply (rs ! target);
                       flow = min demand supply
                   in if flow > 0
                      then stepFlowLoop rs node rest
                             (transfers @ [\<lparr>src = source, tgt = Road target, amount = flow\<rparr>])
                      else stepFlowLoop rs node rest transfers)))"

definition stepFlow :: "DirectedRoad list \<Rightarrow> Intersection \<Rightarrow> transfer list" where
  "stepFlow rs node = stepFlowLoop rs node (allowedDirs (phase node)) []"

section \<open>SimulationEngine\<close>

datatype ControlMode = FIXED | SMART

text \<open>
  \<open>intersections\<close> is a JavaScript object keyed by the strings \<open>r-c\<close>; none of the keys is
  an array index, so \<open>Object.values\<close> lists the entries in insertion order: an association
  list, where assigning to a new key appends and assigning to an old key keeps its place
  (\<open>AList.update\<close>).
\<close>

text \<open>
  \<open>rows\<close> and \<open>cols\<close> are integers, negative ones included; the loop counters \<open>r\<close> and
  \<open>c\<close> start at 0 and are natural numbers.
\<close>

record SimulationEngine =
  roads :: "DirectedRoad list"
  intersections :: "(string \<times> Intersection) list"
  totalThroughput :: real
  stepCount :: nat
  mode :: ControlMode
  rows :: int
  cols :: int
  inflowRate :: real

text \<open>Reading a property of \<open>undefined\<close> throws a TypeError.\<close>

datatype error = TypeError

text \<open>
  Template literals print a non-negative integer in decimal (below \<open>10^21\<close>, where
  JavaScript switches to the exponent notation).
\<close>

fun showNat :: "nat \<Rightarrow> string" where
  "showNat n =
     (if n < 10 then [char_of (48 + n)]
      else showNat (n div 10) @ [char_of (48 + n mod 10)])"

declare showNat.simps [simp del]

definition nodeId :: "nat \<Rightarrow> nat \<Rightarrow> string" where
  "nodeId r c = showNat r @ ''-'' @ showNat c"

definition roadId :: "string \<Rightarrow> nat \<Rightarrow> nat \<Rightarrow> string" where
  "roadId d r c = ''R_'' @ d @ ''_'' @ showNat r @ ''_'' @ showNat c"

text \<open>A \<open>for\<close> loop whose body may throw: the first error ends it.\<close>

fun forEach :: "'a list \<Rightarrow> ('a \<Rightarrow> 's \<Rightarrow> error + 's) \<Rightarrow> 's \<Rightarrow> error + 's" where
  "forEach [] body s = Inr s"
| "forEach (x # xs) body s =
     (case body x s of Inl err \<Rightarrow> Inl err | Inr s' \<Rightarrow> forEach xs body s')"

text \<open>
  The nested loops \<open>for r < rows\<close>, \<open>for c < cols\<close> visit the pairs \<open>(r, c)\<close> in row-major
  order.
\<close>

definition gridCells :: "SimulationEngine \<Rightarrow> (nat \<times> nat) list" where
  "gridCells e = List.product [0..<nat (rows e)] [0..<nat (cols e)]"

definition createIntersection :: "nat \<times> nat \<Rightarrow> SimulationEngine \<Rightarrow> error + SimulationEngine" where
  "createIntersection rc e =
     (let nid = nodeId (fst rc) (snd rc)
      in Inr (e\<lparr>intersections :=
                 AList.update nid (new_Intersection nid (fst rc) (snd rc)) (intersections e)\<rparr>))"

text \<open>\<open>x.outRoads[d] = road\<close> and \<open>x.inRoads[d] = road\<close>, for the intersection stored under \<open>key\<close>.\<close>

definition setOut ::
  "string \<Rightarrow> dir \<Rightarrow> nat \<Rightarrow> (string \<times> Intersection) list \<Rightarrow> (string \<times> Intersection) list" where
  "setOut key d k ns = AList.map_entry key (\<lambda>n. n\<lparr>outRoads := (outRoads n)(d := Some k)\<rparr>) ns"

definition setIn ::
  "string \<Rightarrow> dir \<Rightarrow> nat \<Rightarrow> (string \<times> Intersection) list \<Rightarrow> (string \<times> Intersection) list" where
  "setIn key d k ns = AList.map_entry key (\<lambda>n. n\<lparr>inRoads := (inRoads n)(d := Some k)\<rparr>) ns"

text \<open>
  One pair of opposite roads between the intersections stored under \<open>uk\<close> and \<open>vk\<close>:
  \<open>d1\<close> is the direction of \<open>r1\<close> (from \<open>u\<close> to \<open>v\<close>), \<open>d2\<close> that of \<open>r2\<close>.
\<close>

definition connectPair ::
  "string \<Rightarrow> string \<Rightarrow> dir \<Rightarrow> string \<Rightarrow> bool \<Rightarrow> dir \<Rightarrow> string \<Rightarrow> bool \<Rightarrow>
   SimulationEngine \<Rightarrow> error + SimulationEngine" where
  "connectPair uk vk d1 id1 bound1 d2 id2 bound2 e =
     (case map_of (intersections e) uk of
        None \<Rightarrow> Inl TypeError
      | Some un \<Rightarrow>
          (case map_of (intersections e) vk of
             None \<Rightarrow> Inl TypeError
           | Some vn \<Rightarrow>
               (let r1 = new_DirectedRoad id1 (id_node un) (id_node vn) bound1;
                    r2 = new_DirectedRoad id2 (id_node vn) (id_node un) bound2;
                    k1 = length (roads e);
                    k2 = length (roads e) + 1;
                    ns1 = setOut uk d1 k1 (intersections e);
                    ns2 = setIn vk d2 k1 ns1;
                    ns3 = setOut vk d2 k2 ns2;
                    ns4 = setIn uk d1 k2 ns3
                in Inr (e\<lparr>roads := roads e @ [r1, r2], intersections := ns4\<rparr>))))"

definition connectRoads :: "nat \<times> nat \<Rightarrow> SimulationEngine \<Rightarrow> error + SimulationEngine" where
  "connectRoads rc e =
     (let r = fst rc; c = snd rc
      in case (if int c < cols e - 1
               then connectPair (nodeId r c) (nodeId r (c + 1))
                      E (roadId ''E'' r c) (c = 0)
                      W (roadId ''W'' r c) (int c + 1 = cols e - 1) e
               else Inr e) of
           Inl err \<Rightarrow> Inl err
         | Inr e1 \<Rightarrow>
             (if int r < rows e1 - 1
              then connectPair (nodeId r c) (nodeId (r + 1) c)
                     S (roadId ''S'' r c) (r = 0)
                     N (roadId ''N'' r c) (int r + 1 = rows e1 - 1) e1
              else Inr e1))"

definition buildGrid :: "SimulationEngine \<Rightarrow> error + SimulationEngine" where
  "buildGrid e =
     (case forEach (gridCells e) createIntersection e of
        Inl err \<Rightarrow> Inl err
      | Inr e1 \<Rightarrow> forEach (gridCells e1) connectRoads e1)"

definition new_SimulationEngine ::
  "int \<Rightarrow> int \<Rightarrow> real \<Rightarrow> ControlMode \<Rightarrow> error + SimulationEngine" where
  "new_SimulationEngine rws cls rate m =
     buildGrid \<lparr>roads = [], intersections = [], totalThroughput = 0, stepCount = 0,
                mode = m, rows = rws, cols = cls, inflowRate = rate\<rparr>"

subsection \<open>step\<close>

text \<open>The body of the signal loop of \<open>step\<close>, for one intersection.\<close>

definition updateSignal :: "ControlMode \<Rightarrow> DirectedRoad list \<Rightarrow> Intersection \<Rightarrow> Intersection" where
  "updateSignal m rs node0 =
     (let node = node0\<lparr>phaseTimer := phaseTimer node0 + 1\<rparr>
      in if m = FIXED
         then (if phaseTimer node \<ge> FIXED_CYCLE_STEPS
               then node\<lparr>phase := 1 - phase node, phaseTimer := 0\<rparr>
               else node)
         else (if phaseTimer node \<ge> MAX_RED_STEPS
               then node\<lparr>phase := 1 - phase node, phaseTimer := 0\<rparr>
               else if phaseTimer node \<ge> MIN_GREEN_STEPS
               then (let p_ns = fst (getPressure rs node);
                         p_ew = snd (getPressure rs node)
                     in if phase node = 0 \<and> p_ew > p_ns
                        then node\<lparr>phase := 1, phaseTimer := 0\<rparr>
                        else if phase node = 1 \<and> p_ns > p_ew
                        then node\<lparr>phase := 0, phaseTimer := 0\<rparr>
                        else node)
               else node))"

definition collectTransfers ::
  "DirectedRoad list \<Rightarrow> (string \<times> Intersection) list \<Rightarrow> transfer list" where
  "collectTransfers rs ns = concat (map (\<lambda>kn. stepFlow rs (snd kn)) ns)"

text \<open>
  The aggregation loop \<open>for (const {src, tgt, amount} of transfers)\<close>. The objects
  \<open>inflows\<close> and \<open>outflows\<close> hold 0 under the id of every road of \<open>this.roads\<close>, and only
  these ids are written or read: they are functions that start at 0 everywhere.
\<close>

fun aggregate ::
  "DirectedRoad list \<Rightarrow> transfer list \<Rightarrow> (string \<Rightarrow> real) \<times> (string \<Rightarrow> real) \<times> real \<Rightarrow>
   (string \<Rightarrow> real) \<times> (string \<Rightarrow> real) \<times> real" where
  "aggregate rs [] acc = acc"
| "aggregate rs (t # ts) (inflows, outflows, thr) =
     (let sid = id_road (rs ! src t);
          outflows1 = outflows(sid := outflows sid + amount t)
      in case tgt t of
           EXIT \<Rightarrow> aggregate rs ts (inflows, outflows1, thr + amount t)
         | Road j \<Rightarrow>
             (let tid = id_road (rs ! j)
              in aggregate rs ts (inflows(tid := inflows tid + amount t), outflows1, thr)))"

text \<open>The four tests that set \<open>isEntry\<close>; \<open>includes\<close> is the test for a contiguous substring.\<close>

definition isEntry :: "DirectedRoad \<Rightarrow> Intersection \<Rightarrow> bool" where
  "isEntry r uNode =
     ((sublist ''R_E'' (id_road r) \<and> inRoads uNode W = None) \<or>
      (sublist ''R_W'' (id_road r) \<and> inRoads uNode E = None) \<or>
      (sublist ''R_S'' (id_road r) \<and> inRoads uNode N = None) \<or>
      (sublist ''R_N'' (id_road r) \<and> inRoads uNode S = None))"

text \<open>
  The inflow loop. \<open>Math.random()\<close> is the stream \<open>rnd\<close>; \<open>pos\<close> counts the draws made so
  far, and a draw is made only for an entry road with space in its first cell.
\<close>

fun spawnLoop ::
  "(string \<times> Intersection) list \<Rightarrow> real \<Rightarrow> (nat \<Rightarrow> real) \<Rightarrow> DirectedRoad list \<Rightarrow> nat \<Rightarrow>
   DirectedRoad list \<times> nat" where
  "spawnLoop ns rate rnd [] pos = ([], pos)"
| "spawnLoop ns rate rnd (r # rs) pos =
     (case map_of ns (u r) of
        None \<Rightarrow> (r # fst (spawnLoop ns rate rnd rs pos), snd (spawnLoop ns rate rnd rs pos))
      | Some uNode \<Rightarrow>
          (if isEntry r uNode \<and> cells r ! 0 < 2
           then (if rnd pos < rate
                 then (r\<lparr>cells := (cells r)[0 := cells r ! 0 + 2]\<rparr>
                         # fst (spawnLoop ns rate rnd rs (pos + 1)),
                       snd (spawnLoop ns rate rnd rs (pos + 1)))
                 else (r # fst (spawnLoop ns rate rnd rs (pos + 1)),
                       snd (spawnLoop ns rate rnd rs (pos + 1))))
           else (r # fst (spawnLoop ns rate rnd rs pos), snd (spawnLoop ns rate rnd rs pos))))"

text \<open>One tick: the engine and the number of random draws made so far, before and after.\<close>

definition step :: "(nat \<Rightarrow> real) \<Rightarrow> SimulationEngine \<times> nat \<Rightarrow> SimulationEngine \<times> nat" where
  "step rnd st =
     (let e = fst st; pos = snd st;
          ns = map (\<lambda>kn. (fst kn, updateSignal (mode e) (roads e) (snd kn))) (intersections e);
          transfers = collectTransfers (roads e) ns;
          agg = aggregate (roads e) transfers ((\<lambda>k. 0), (\<lambda>k. 0), totalThroughput e);
          inflows = fst agg;
          outflows = fst (snd agg);
          rs1 = map (\<lambda>r. stepPhysics r (inflows (id_road r)) (outflows (id_road r))) (roads e);
          sp = spawnLoop ns (inflowRate e) rnd rs1 pos
      in (e\<lparr>roads := fst sp, intersections := ns, totalThroughput := snd (snd agg),
             stepCount := stepCount e + 1\<rparr>, snd sp))"

text \<open>\<open>k\<close> calls of \<open>step\<close>.\<close>

fun steps :: "(nat \<Rightarrow> real) \<Rightarrow> nat \<Rightarrow> SimulationEngine \<times> nat \<Rightarrow> SimulationEngine \<times> nat" where
  "steps rnd 0 st = st"
| "steps rnd (Suc k) st = step rnd (steps rnd k st)"

subsection \<open>getSnapshot\<close>

record RoadData =
  id_data :: string
  u_data :: string
  v_data :: string
  cells_data :: "real list"
  totalCars_data :: real
  stoppedQueue_data :: real
  isBoundary_data :: bool

record IntersectionData =
  id_idata :: string
  phase_idata :: int
  row_idata :: nat
  col_idata :: nat

record SimulationStats =
  step_stats :: nat
  totalCars_stats :: real
  stoppedCars_stats :: real
  throughput_stats :: real

record SimulationSnapshot =
  roads_snap :: "RoadData list"
  intersections_snap :: "IntersectionData list"
  stats_snap :: SimulationStats

definition getSnapshot :: "SimulationEngine \<Rightarrow> SimulationSnapshot" where
  "getSnapshot e =
     (let totalCars = foldl (\<lambda>sum r. sum + getTotalCars r) 0 (roads e);
          stoppedCars = foldl (\<lambda>sum r. sum + getStoppedQueue r) 0 (roads e);
          roadSnapshots =
            map (\<lambda>r. \<lparr>id_data = id_road r, u_data = u r, v_data = v r, cells_data = cells r,
                       totalCars_data = getTotalCars r, stoppedQueue_data = getStoppedQueue r,
                       isBoundary_data = isBoundary r\<rparr>) (roads e);
          intersectionSnapshots =
            map (\<lambda>kn. \<lparr>id_idata = id_node (snd kn), phase_idata = phase (snd kn),
                        row_idata = row (snd kn), col_idata = col (snd kn)\<rparr>) (intersections e)
      in \<lparr>roads_snap = roadSnapshots, intersections_snap = intersectionSnapshots,
          stats_snap = \<lparr>step_stats = stepCount e, totalCars_stats = totalCars,
                        stoppedCars_stats = stoppedCars, throughput_stats = totalThroughput e\<rparr>\<rparr>)"

section \<open>Specification-level definitions\<close>

subsection \<open>Cell transmission\<close>

text \<open>The flux of the adjacent pair \<open>(i, i + 1)\<close>, read from the frozen snapshot \<open>cs\<close>.\<close>

definition pairFlux :: "real list \<Rightarrow> nat \<Rightarrow> real" where
  "pairFlux cs i = min (cs ! i) (MAX_CARS_PER_CELL - cs ! (i + 1))"

text \<open>
  The simultaneous update of the specification:
  \<open>new[i] = frozen[i] - flux(i, i + 1) + flux(i - 1, i)\<close>, where the first cell has no
  pair behind it and the last cell none ahead.
\<close>

definition ctm_reference :: "real list \<Rightarrow> real list" where
  "ctm_reference f =
     map (\<lambda>i. f ! i - (if i + 1 < length f then pairFlux f i else 0)
                 + (if 0 < i then pairFlux f (i - 1) else 0)) [0..<length f]"

text \<open>
  The body of the loop of \<open>stepPhysics\<close>, run over the pairs in the order of an arbitrary
  list \<open>is\<close> of pair indices; the source runs it in the order \<open>n - 2, ..., 0\<close>.
\<close>

fun ctmPairs :: "real list \<Rightarrow> nat list \<Rightarrow> real list \<Rightarrow> real list" where
  "ctmPairs cs [] new = new"
| "ctmPairs cs (i # is) new =
     ctmPairs cs is ((new[i := new ! i - pairFlux cs i])
        [i + 1 := (new[i := new ! i - pairFlux cs i]) ! (i + 1) + pairFlux cs i])"

definition cellsOK :: "real list \<Rightarrow> bool" where
  "cellsOK cs = list_all (\<lambda>c. 0 \<le> c \<and> c \<le> MAX_CARS_PER_CELL) cs"

definition densitiesOK :: "SimulationEngine \<Rightarrow> bool" where
  "densitiesOK e = list_all (\<lambda>r. cells r \<noteq> [] \<and> cellsOK (cells r)) (roads e)"

subsection \<open>Routing\<close>

text \<open>Straight through: \<open>N\<rightarrow>S\<close>, \<open>S\<rightarrow>N\<close>, \<open>E\<rightarrow>W\<close>, \<open>W\<rightarrow>E\<close>.\<close>

fun opposite :: "dir \<Rightarrow> dir" where
  "opposite N = S"
| "opposite S = N"
| "opposite E = W"
| "opposite W = E"

text \<open>
  What the specification routes from the incoming road of direction \<open>d\<close>: nothing when
  there is no such road; its whole demand to the exit when the opposite outgoing road is
  missing; else the minimum of demand and supply, and only when that is positive.
\<close>

definition routeOne :: "DirectedRoad list \<Rightarrow> Intersection \<Rightarrow> dir \<Rightarrow> transfer list" where
  "routeOne rs node d =
     (case inRoads node d of
        None \<Rightarrow> []
      | Some s \<Rightarrow>
          (case outRoads node (opposite d) of
             None \<Rightarrow> [\<lparr>src = s, tgt = EXIT, amount = getDemand (rs ! s)\<rparr>]
           | Some t \<Rightarrow>
               (if min (getDemand (rs ! s)) (getSupply (rs ! t)) > 0
                then [\<lparr>src = s, tgt = Road t,
                       amount = min (getDemand (rs ! s)) (getSupply (rs ! t))\<rparr>]
                else [])))"

definition routeFlow_spec :: "DirectedRoad list \<Rightarrow> Intersection \<Rightarrow> transfer list" where
  "routeFlow_spec rs node =
     (if phase node = 0 then routeOne rs node N @ routeOne rs node S
      else routeOne rs node E @ routeOne rs node W)"

text \<open>Scenario C: a road whose last cell holds 7, in front of an empty road.\<close>

definition scenarioC_roads :: "DirectedRoad list" where
  "scenarioC_roads =
     [\<lparr>id_road = ''R_S_0_0'', u = ''0-0'', v = ''1-0'',
       cells = [0, 0, 0, 0, 0, 0, 0, 0, 0, 7], isBoundary = True\<rparr>,
      new_DirectedRoad ''R_S_1_0'' ''1-0'' ''2-0'' False]"

definition scenarioC_node :: Intersection where
  "scenarioC_node =
     (new_Intersection ''1-0'' 1 0)
       \<lparr>inRoads := (\<lambda>d. None)(N := Some 0), outRoads := (\<lambda>d. None)(S := Some 1)\<rparr>"

subsection \<open>Pressure\<close>

definition queuedOf :: "DirectedRoad list \<Rightarrow> nat option \<Rightarrow> real" where
  "queuedOf rs x = (case x of None \<Rightarrow> 0 | Some i \<Rightarrow> getStoppedQueue (rs ! i))"

definition totalOf :: "DirectedRoad list \<Rightarrow> nat option \<Rightarrow> real" where
  "totalOf rs x = (case x of None \<Rightarrow> 0 | Some i \<Rightarrow> getTotalCars (rs ! i))"

text \<open>
  The pressure as the specification words it: the queued load of the incoming roads of
  the axis, minus half the total of the opposing outgoing roads, a missing road counting
  for nothing.
\<close>

definition pressure_spec :: "DirectedRoad list \<Rightarrow> Intersection \<Rightarrow> real \<times> real" where
  "pressure_spec rs node =
     (max 0.1 (queuedOf rs (inRoads node N) + queuedOf rs (inRoads node S)
               - 0.5 * (totalOf rs (outRoads node S) + totalOf rs (outRoads node N))),
      max 0.1 (queuedOf rs (inRoads node E) + queuedOf rs (inRoads node W)
               - 0.5 * (totalOf rs (outRoads node W) + totalOf rs (outRoads node E))))"

text \<open>
  The pressure of one movement, from the incoming road of direction \<open>a\<close> to the outgoing
  road of direction \<open>b\<close>: it counts, outgoing road included, only when the incoming road
  exists.
\<close>

definition movementPressure :: "DirectedRoad list \<Rightarrow> Intersection \<Rightarrow> dir \<Rightarrow> dir \<Rightarrow> real" where
  "movementPressure rs node a b =
     (case inRoads node a of
        None \<Rightarrow> 0
      | Some i \<Rightarrow> getStoppedQueue (rs ! i) - 0.5 * totalOf rs (outRoads node b))"

text \<open>
  The intersection \<open>0-0\<close> of a grid of two rows and one column, as \<open>buildGrid\<close> wires it:
  no road comes from the north, the road \<open>R_S_0_0\<close> goes south and the road \<open>R_N_0_0\<close>
  comes from the south. The densities are chosen.
\<close>

definition pressureEdge_roads :: "DirectedRoad list" where
  "pressureEdge_roads =
     [\<lparr>id_road = ''R_S_0_0'', u = ''0-0'', v = ''1-0'',
       cells = [4, 0, 0, 0, 0, 0, 0, 0, 0, 0], isBoundary = True\<rparr>,
      \<lparr>id_road = ''R_N_0_0'', u = ''1-0'', v = ''0-0'',
       cells = [0, 0, 0, 0, 0, 0, 0, 0, 0, 5], isBoundary = True\<rparr>]"

definition pressureEdge_node :: Intersection where
  "pressureEdge_node =
     (new_Intersection ''0-0'' 0 0)
       \<lparr>inRoads := (\<lambda>d. None)(S := Some 1), outRoads := (\<lambda>d. None)(S := Some 0)\<rparr>"

subsection \<open>Runs of the engine\<close>

definition nodeAt :: "SimulationEngine \<Rightarrow> nat \<Rightarrow> Intersection" where
  "nodeAt e j = snd (intersections e ! j)"

text \<open>The engine after \<open>t\<close> ticks, and whether tick \<open>t + 1\<close> changes the phase of node \<open>j\<close>.\<close>

definition after :: "(nat \<Rightarrow> real) \<Rightarrow> SimulationEngine \<Rightarrow> nat \<Rightarrow> nat \<Rightarrow> SimulationEngine" where
  "after rnd e pos t = fst (steps rnd t (e, pos))"

definition phaseChanged :: "(nat \<Rightarrow> real) \<Rightarrow> SimulationEngine \<Rightarrow> nat \<Rightarrow> nat \<Rightarrow> nat \<Rightarrow> bool" where
  "phaseChanged rnd e pos j t =
     (phase (nodeAt (after rnd e pos (Suc t)) j) \<noteq> phase (nodeAt (after rnd e pos t) j))"

text \<open>The transfer list that \<open>step\<close> collects when it is called in the state \<open>e\<close>.\<close>

definition tickTransfers :: "SimulationEngine \<Rightarrow> transfer list" where
  "tickTransfers e =
     collectTransfers (roads e)
       (map (\<lambda>kn. (fst kn, updateSignal (mode e) (roads e) (snd kn))) (intersections e))"

definition roadTargets :: "transfer list \<Rightarrow> nat list" where
  "roadTargets ts = concat (map (\<lambda>t. case tgt t of EXIT \<Rightarrow> [] | Road j \<Rightarrow> [j]) ts)"

text \<open>The transfers whose destination is a road with the id \<open>k\<close>.\<close>

definition intoId :: "DirectedRoad list \<Rightarrow> string \<Rightarrow> transfer \<Rightarrow> bool" where
  "intoId rs k t = (case tgt t of EXIT \<Rightarrow> False | Road j \<Rightarrow> id_road (rs ! j) = k)"

subsection \<open>Well-formed grids\<close>

text \<open>
  Every road reference of an intersection is an index of the array \<open>roads\<close>; no road sits
  in two outgoing slots, nor in two incoming slots; ids and keys are unique.
\<close>

definition inBelow :: "nat \<Rightarrow> (string \<times> Intersection) list \<Rightarrow> bool" where
  "inBelow b ns = (\<forall>k n d i. map_of ns k = Some n \<and> inRoads n d = Some i \<longrightarrow> i < b)"

definition outBelow :: "nat \<Rightarrow> (string \<times> Intersection) list \<Rightarrow> bool" where
  "outBelow b ns = (\<forall>k n d i. map_of ns k = Some n \<and> outRoads n d = Some i \<longrightarrow> i < b)"

definition inInj :: "(string \<times> Intersection) list \<Rightarrow> bool" where
  "inInj ns =
     (\<forall>k1 k2 n1 n2 d1 d2 i. map_of ns k1 = Some n1 \<and> map_of ns k2 = Some n2 \<and>
        inRoads n1 d1 = Some i \<and> inRoads n2 d2 = Some i \<longrightarrow> k1 = k2 \<and> d1 = d2)"

definition outInj :: "(string \<times> Intersection) list \<Rightarrow> bool" where
  "outInj ns =
     (\<forall>k1 k2 n1 n2 d1 d2 i. map_of ns k1 = Some n1 \<and> map_of ns k2 = Some n2 \<and>
        outRoads n1 d1 = Some i \<and> outRoads n2 d2 = Some i \<longrightarrow> k1 = k2 \<and> d1 = d2)"

definition nodeRefsBelow :: "nat \<Rightarrow> Intersection \<Rightarrow> bool" where
  "nodeRefsBelow b n =
     (\<forall>d i. (inRoads n d = Some i \<longrightarrow> i < b) \<and> (outRoads n d = Some i \<longrightarrow> i < b))"

definition wfGrid :: "SimulationEngine \<Rightarrow> bool" where
  "wfGrid e =
     (distinct (map fst (intersections e)) \<and> distinct (map id_road (roads e)) \<and>
      inBelow (length (roads e)) (intersections e) \<and>
      outBelow (length (roads e)) (intersections e) \<and>
      inInj (intersections e) \<and> outInj (intersections e))"

text \<open>The state in which the constructor leaves signals and roads, and the configuration.\<close>

definition nodesQuiet :: "(string \<times> Intersection) list \<Rightarrow> bool" where
  "nodesQuiet ns = (\<forall>k n. map_of ns k = Some n \<longrightarrow> phase n = 0 \<and> phaseTimer n = 0)"

definition unstarted :: "SimulationEngine \<Rightarrow> bool" where
  "unstarted e =
     (nodesQuiet (intersections e) \<and>
      (\<forall>r\<in>set (roads e). cells r = replicate ROAD_LENGTH_CELLS 0))"

definition sameConfig :: "SimulationEngine \<Rightarrow> SimulationEngine \<Rightarrow> bool" where
  "sameConfig e e' =
     (rows e' = rows e \<and> cols e' = cols e \<and> mode e' = mode e \<and>
      inflowRate e' = inflowRate e \<and> totalThroughput e' = totalThroughput e \<and>
      stepCount e' = stepCount e)"

text \<open>The ids that \<open>buildGrid\<close> gives to the roads it creates at the cells \<open>cs\<close> of the grid.\<close>

definition roadIdsAt :: "(nat \<times> nat) list \<Rightarrow> string set" where
  "roadIdsAt cs =
     {roadId [x] (fst rc) (snd rc) | x rc.
        x \<in> {CHR ''E'', CHR ''W'', CHR ''S'', CHR ''N''} \<and> rc \<in> set cs}"

text \<open>The engine that the constructor builds for one row of two intersections.\<close>

definition grid12 :: "real \<Rightarrow> ControlMode \<Rightarrow> SimulationEngine" where
  "grid12 rate m =
     \<lparr>roads = [new_DirectedRoad ''R_E_0_0'' ''0-0'' ''0-1'' True,
               new_DirectedRoad ''R_W_0_0'' ''0-1'' ''0-0'' True],
      intersections =
        [(''0-0'', (new_Intersection ''0-0'' 0 0)
                     \<lparr>inRoads := (\<lambda>d. None)(E := Some 1), outRoads := (\<lambda>d. None)(E := Some 0)\<rparr>),
         (''0-1'', (new_Intersection ''0-1'' 0 1)
                     \<lparr>inRoads := (\<lambda>d. None)(W := Some 0), outRoads := (\<lambda>d. None)(W := Some 1)\<rparr>)],
      totalThroughput = 0, stepCount = 0, mode = m, rows = 1, cols = 2, inflowRate = rate\<rparr>"

subsection \<open>The boundary flag\<close>

text \<open>A road, and an engine, with the flag \<open>isBoundary\<close> forgotten.\<close>

definition eraseFlag :: "DirectedRoad \<Rightarrow> DirectedRoad" where
  "eraseFlag r = r\<lparr>isBoundary := False\<rparr>"

definition eraseBoundary :: "SimulationEngine \<Rightarrow> SimulationEngine" where
  "eraseBoundary e = e\<lparr>roads := map eraseFlag (roads e)\<rparr>"

section \<open>Properties of a road\<close>

lemma ctmLoop_ctmPairs: "ctmLoop cs k new = ctmPairs cs (rev [0..<k]) new"
  by (induction k arbitrary: new) (simp_all add: Let_def pairFlux_def)

lemma length_ctmPairs [simp]: "length (ctmPairs cs is new) = length new"
  by (induction "is" arbitrary: new) simp_all

lemma nth_ctmPairs:
  "\<forall>i\<in>set is. i + 1 < length new \<Longrightarrow> j < length new \<Longrightarrow>
   ctmPairs cs is new ! j =
     new ! j - of_nat (count_list is j) * pairFlux cs j
       + (if j = 0 then 0 else of_nat (count_list is (j - 1)) * pairFlux cs (j - 1))"
proof (induction "is" arbitrary: new)
  case Nil
  then show ?case by simp
next
  case (Cons i "is")
  let ?n1 = "new[i := new ! i - pairFlux cs i]"
  let ?n2 = "?n1[i + 1 := ?n1 ! (i + 1) + pairFlux cs i]"
  have len: "length ?n2 = length new" by simp
  have pre: "\<forall>i\<in>set is. i + 1 < length ?n2" using Cons.prems(1) by simp
  have j: "j < length ?n2" using Cons.prems(2) by simp
  have i: "i + 1 < length new" using Cons.prems(1) by simp
  have step: "?n2 ! j = new ! j - (if i = j then pairFlux cs j else 0)
                  + (if j = i + 1 then pairFlux cs i else 0)"
    using i Cons.prems(2) by (auto simp: nth_list_update)
  show ?case
    using Cons.IH[OF pre j] step by (auto simp: algebra_simps)
qed

lemma sum_list_update_real:
  "k < length xs \<Longrightarrow> sum_list (xs[k := x]) = sum_list xs - xs ! k + (x::real)"
  by (induction xs arbitrary: k) (auto split: nat.splits)

lemma count_list_distinct:
  "distinct xs \<Longrightarrow> count_list xs x = (if x \<in> set xs then 1 else 0)"
  by (induction xs) auto

lemma sum_list_ctmPairs:
  "\<forall>i\<in>set is. i + 1 < length new \<Longrightarrow> sum_list (ctmPairs cs is new) = sum_list new"
proof (induction "is" arbitrary: new)
  case Nil
  then show ?case by simp
next
  case (Cons i "is")
  let ?n1 = "new[i := new ! i - pairFlux cs i]"
  let ?n2 = "?n1[i + 1 := ?n1 ! (i + 1) + pairFlux cs i]"
  have i: "i + 1 < length new" using Cons.prems(1) by simp
  have "sum_list ?n2 = sum_list new"
    using i by (simp add: sum_list_update_real nth_list_update)
  moreover have "\<forall>i\<in>set is. i + 1 < length ?n2" using Cons.prems by simp
  ultimately show ?case using Cons.IH[of ?n2] by simp
qed

lemma foldl_plus_sum_list: "foldl (\<lambda>a b. a + b) (a::real) xs = a + sum_list xs"
  by (induction xs arbitrary: a) simp_all

lemma ctmPairs_reference:
  assumes "distinct is" "set is = {0..<length f - 1}"
  shows "ctmPairs f is f = ctm_reference f"
proof (rule nth_equalityI)
  show "length (ctmPairs f is f) = length (ctm_reference f)"
    by (simp add: ctm_reference_def)
next
  fix j assume "j < length (ctmPairs f is f)"
  then have j: "j < length f" by simp
  have b: "\<forall>i\<in>set is. i + 1 < length f" using assms(2) by auto
  have cnt: "count_list is k = (if k < length f - 1 then 1 else 0)" for k
    using assms by (auto simp: count_list_distinct)
  show "ctmPairs f is f ! j = ctm_reference f ! j"
    using j by (auto simp: nth_ctmPairs[OF b j] cnt ctm_reference_def)
qed

lemma cellsOK_nth: "cellsOK cs \<Longrightarrow> i < length cs \<Longrightarrow> 0 \<le> cs ! i \<and> cs ! i \<le> MAX_CARS_PER_CELL"
  by (simp add: cellsOK_def list_all_length)

lemma cellsOK_iff_nth:
  "cellsOK cs \<longleftrightarrow> (\<forall>i<length cs. 0 \<le> cs ! i \<and> cs ! i \<le> MAX_CARS_PER_CELL)"
  by (simp add: cellsOK_def list_all_length)

lemma length_boundaryUpdate [simp]: "length (boundaryUpdate cs a b) = length cs"
  by (simp add: boundaryUpdate_def Let_def)

lemma sum_list_boundaryUpdate:
  assumes "cs \<noteq> []"
  shows "sum_list (boundaryUpdate cs flowIn flowOut) =
           sum_list cs + flowIn - min flowOut (cs ! (length cs - 1))"
proof -
  have n: "length cs - 1 < length cs" "0 < length cs" using assms by auto
  show ?thesis
    using n by (auto simp: boundaryUpdate_def Let_def sum_list_update_real nth_list_update)
qed

lemma cellsOK_boundaryUpdate:
  assumes ok: "cellsOK cs" and ne: "cs \<noteq> []"
    and fin: "0 \<le> flowIn" "flowIn \<le> max 0 (MAX_CARS_PER_CELL - cs ! 0)"
    and fout: "0 \<le> flowOut"
  shows "cellsOK (boundaryUpdate cs flowIn flowOut)"
proof -
  have n: "length cs - 1 < length cs" "0 < length cs" using ne by auto
  have c0: "0 \<le> cs ! 0 \<and> cs ! 0 \<le> MAX_CARS_PER_CELL" using cellsOK_nth[OF ok n(2)] .
  have cl: "0 \<le> cs ! (length cs - 1) \<and> cs ! (length cs - 1) \<le> MAX_CARS_PER_CELL"
    using cellsOK_nth[OF ok n(1)] .
  show ?thesis
    unfolding cellsOK_iff_nth
  proof (intro allI impI)
    fix i assume "i < length (boundaryUpdate cs flowIn flowOut)"
    then have i: "i < length cs" by simp
    have ci: "0 \<le> cs ! i \<and> cs ! i \<le> MAX_CARS_PER_CELL" using cellsOK_nth[OF ok i] .
    show "0 \<le> boundaryUpdate cs flowIn flowOut ! i \<and>
          boundaryUpdate cs flowIn flowOut ! i \<le> MAX_CARS_PER_CELL"
      using i n c0 cl ci fin fout
      by (auto simp: boundaryUpdate_def Let_def nth_list_update)
  qed
qed

lemma cellsOK_ctm_reference:
  assumes ok: "cellsOK f"
  shows "cellsOK (ctm_reference f)"
  unfolding cellsOK_iff_nth
proof (intro allI impI)
  fix i assume "i < length (ctm_reference f)"
  then have i: "i < length f" by (simp add: ctm_reference_def)
  have ci: "0 \<le> f ! i \<and> f ! i \<le> MAX_CARS_PER_CELL" using cellsOK_nth[OF ok i] .
  have cn: "i + 1 < length f \<Longrightarrow> 0 \<le> f ! (i + 1) \<and> f ! (i + 1) \<le> MAX_CARS_PER_CELL"
    using cellsOK_nth[OF ok] by blast
  have cp: "0 < i \<Longrightarrow> 0 \<le> f ! (i - 1) \<and> f ! (i - 1) \<le> MAX_CARS_PER_CELL"
    using cellsOK_nth[OF ok, of "i - 1"] i by simp
  have val: "ctm_reference f ! i = f ! i - (if i + 1 < length f then pairFlux f i else 0)
                 + (if 0 < i then pairFlux f (i - 1) else 0)"
    using i by (simp add: ctm_reference_def)
  have out: "0 \<le> (if i + 1 < length f then pairFlux f i else 0) \<and>
             (if i + 1 < length f then pairFlux f i else 0) \<le> f ! i"
    using ci cn by (cases "i + 1 < length f") (auto simp: pairFlux_def)
  have inn: "0 \<le> (if 0 < i then pairFlux f (i - 1) else 0) \<and>
             (if 0 < i then pairFlux f (i - 1) else 0) \<le> MAX_CARS_PER_CELL - f ! i"
    using ci cp by (cases "i = 0") (auto simp: pairFlux_def)
  show "0 \<le> ctm_reference f ! i \<and> ctm_reference f ! i \<le> MAX_CARS_PER_CELL"
    unfolding val using out inn by linarith
qed

lemma cells_stepPhysics:
  "cells (stepPhysics r a b) = ctm_reference (boundaryUpdate (cells r) a b)"
proof -
  let ?f = "boundaryUpdate (cells r) a b"
  have "ctmPairs ?f (rev [0..<length ?f - 1]) ?f = ctm_reference ?f"
    by (rule ctmPairs_reference) simp_all
  then show ?thesis
    by (simp add: stepPhysics_def Let_def ctmLoop_ctmPairs)
qed

lemma cellsOK_stepPhysics:
  assumes "cellsOK (cells r)" "cells r \<noteq> []" "0 \<le> flowIn" "flowIn \<le> getSupply r" "0 \<le> flowOut"
  shows "cellsOK (cells (stepPhysics r flowIn flowOut))"
  using assms
  by (simp add: cells_stepPhysics getSupply_def cellsOK_ctm_reference cellsOK_boundaryUpdate)

lemma sum_list_ctm_reference: "sum_list (ctm_reference f) = sum_list f"
proof -
  have "ctmPairs f (rev [0..<length f - 1]) f = ctm_reference f"
    by (rule ctmPairs_reference) simp_all
  moreover have "sum_list (ctmPairs f (rev [0..<length f - 1]) f) = sum_list f"
    by (rule sum_list_ctmPairs) auto
  ultimately show ?thesis by simp
qed

lemma getTotalCars_sum: "getTotalCars r = sum_list (cells r)"
  by (simp add: getTotalCars_def foldl_plus_sum_list)

lemma total_stepPhysics:
  assumes "cells r \<noteq> []"
  shows "getTotalCars (stepPhysics r flowIn flowOut) =
     getTotalCars r + flowIn - min flowOut (cells r ! (length (cells r) - 1))"
  using assms
  by (simp add: getTotalCars_sum cells_stepPhysics sum_list_ctm_reference sum_list_boundaryUpdate)

section \<open>Properties of an intersection\<close>

lemma targetMap_opposite: "targetMap d = opposite d"
  by (cases d) simp_all

lemma stepFlowLoop_routeOne:
  "stepFlowLoop rs node ds acc = acc @ concat (map (routeOne rs node) ds)"
  by (induction ds arbitrary: acc)
     (simp_all add: routeOne_def targetMap_opposite Let_def split: option.splits)

lemma stepFlow_routeFlow_spec: "stepFlow rs node = routeFlow_spec rs node"
  by (simp add: stepFlow_def routeFlow_spec_def stepFlowLoop_routeOne allowedDirs_def)

lemma routeOne_cases:
  assumes "t \<in> set (routeOne rs node d)"
  shows "inRoads node d = Some (src t) \<and>
         ((tgt t = EXIT \<and> outRoads node (opposite d) = None \<and>
             amount t = getDemand (rs ! src t)) \<or>
          (\<exists>j. tgt t = Road j \<and> outRoads node (opposite d) = Some j \<and> 0 < amount t \<and>
             amount t = min (getDemand (rs ! src t)) (getSupply (rs ! j))))"
  using assms by (auto simp: routeOne_def split: option.splits if_splits)

lemma stepFlow_cases:
  assumes "t \<in> set (stepFlow rs node)"
  shows "\<exists>d. inRoads node d = Some (src t) \<and>
         ((tgt t = EXIT \<and> outRoads node (opposite d) = None \<and>
             amount t = getDemand (rs ! src t)) \<or>
          (\<exists>j. tgt t = Road j \<and> outRoads node (opposite d) = Some j \<and> 0 < amount t \<and>
             amount t = min (getDemand (rs ! src t)) (getSupply (rs ! j))))"
proof -
  from assms obtain d where "t \<in> set (routeOne rs node d)"
    by (auto simp: stepFlow_routeFlow_spec routeFlow_spec_def split: if_splits)
  from routeOne_cases[OF this] show ?thesis by blast
qed

lemma length_routeOne: "length (routeOne rs node d) \<le> 1"
  by (simp add: routeOne_def split: option.splits)

lemma pressureBlock_movement:
  "pressureBlock rs node a b p = p + movementPressure rs node a b"
  by (simp add: pressureBlock_def movementPressure_def totalOf_def Let_def split: option.splits)

lemma getPressure_movement:
  "getPressure rs node =
     (max 0.1 (movementPressure rs node N S + movementPressure rs node S N),
      max 0.1 (movementPressure rs node E W + movementPressure rs node W E))"
  by (simp add: getPressure_def Let_def pressureBlock_movement)

section \<open>The signal of one intersection\<close>

lemma updateSignal_slots [simp]:
  "inRoads (updateSignal m rs n) = inRoads n"
  "outRoads (updateSignal m rs n) = outRoads n"
  "id_node (updateSignal m rs n) = id_node n"
  "row (updateSignal m rs n) = row n"
  "col (updateSignal m rs n) = col n"
  by (simp_all add: updateSignal_def Let_def)

lemma updateSignal_FIXED:
  assumes "phaseTimer n < FIXED_CYCLE_STEPS"
  shows "phaseTimer (updateSignal FIXED rs n) = (phaseTimer n + 1) mod FIXED_CYCLE_STEPS"
    and "phase (updateSignal FIXED rs n) =
           (if phaseTimer n + 1 = FIXED_CYCLE_STEPS then 1 - phase n else phase n)"
proof -
  have "phaseTimer n = 5 \<or> phaseTimer n < 5"
    using assms by (auto simp: FIXED_CYCLE_STEPS_def)
  then show "phaseTimer (updateSignal FIXED rs n) = (phaseTimer n + 1) mod FIXED_CYCLE_STEPS"
    and "phase (updateSignal FIXED rs n) =
           (if phaseTimer n + 1 = FIXED_CYCLE_STEPS then 1 - phase n else phase n)"
    by (auto simp: updateSignal_def Let_def FIXED_CYCLE_STEPS_def)
qed

lemma updateSignal_SMART_bound:
  assumes "m \<noteq> FIXED" "phaseTimer n < MAX_RED_STEPS"
  shows "phaseTimer (updateSignal m rs n) < MAX_RED_STEPS"
  using assms by (auto simp: updateSignal_def Let_def MAX_RED_STEPS_def)

lemma updateSignal_SMART_change:
  assumes "m \<noteq> FIXED" "phase (updateSignal m rs n) \<noteq> phase n"
  shows "phaseTimer (updateSignal m rs n) = 0 \<and> MIN_GREEN_STEPS \<le> phaseTimer n + 1"
  using assms
  by (auto simp: updateSignal_def Let_def MAX_RED_STEPS_def MIN_GREEN_STEPS_def split: if_splits)

lemma updateSignal_SMART_keep:
  assumes "m \<noteq> FIXED" "phase (updateSignal m rs n) = phase n"
  shows "phaseTimer (updateSignal m rs n) = phaseTimer n + 1"
proof -
  have "1 - phase n \<noteq> phase n" by presburger
  then show ?thesis
    using assms by (auto simp: updateSignal_def Let_def split: if_splits)
qed

section \<open>What a tick keeps and what it changes\<close>

lemma spawnLoop_shape:
  "length (fst (spawnLoop ns rate rnd rs pos)) = length rs \<and>
   map id_road (fst (spawnLoop ns rate rnd rs pos)) = map id_road rs \<and>
   map u (fst (spawnLoop ns rate rnd rs pos)) = map u rs \<and>
   map v (fst (spawnLoop ns rate rnd rs pos)) = map v rs \<and>
   map isBoundary (fst (spawnLoop ns rate rnd rs pos)) = map isBoundary rs"
  by (induction rs arbitrary: pos) (auto split: option.splits)

lemma stepPhysics_fields [simp]:
  "id_road (stepPhysics r a b) = id_road r"
  "u (stepPhysics r a b) = u r"
  "v (stepPhysics r a b) = v r"
  "isBoundary (stepPhysics r a b) = isBoundary r"
  by (simp_all add: stepPhysics_def Let_def)

lemma step_intersections:
  "intersections (fst (step rnd (e, pos))) =
     map (\<lambda>kn. (fst kn, updateSignal (mode e) (roads e) (snd kn))) (intersections e)"
  by (simp add: step_def Let_def)

lemma step_fields [simp]:
  "mode (fst (step rnd (e, pos))) = mode e"
  "rows (fst (step rnd (e, pos))) = rows e"
  "cols (fst (step rnd (e, pos))) = cols e"
  "inflowRate (fst (step rnd (e, pos))) = inflowRate e"
  "stepCount (fst (step rnd (e, pos))) = stepCount e + 1"
  by (simp_all add: step_def Let_def)

lemma step_roads_shape:
  "length (roads (fst (step rnd (e, pos)))) = length (roads e)"
  "map id_road (roads (fst (step rnd (e, pos)))) = map id_road (roads e)"
  by (simp_all add: step_def Let_def spawnLoop_shape comp_def)

lemma step_keys [simp]:
  "map fst (intersections (fst (step rnd (e, pos)))) = map fst (intersections e)"
  by (simp add: step_intersections comp_def)

lemma step_length_intersections [simp]:
  "length (intersections (fst (step rnd (e, pos)))) = length (intersections e)"
  by (simp add: step_intersections)

lemma step_nodeAt:
  "j < length (intersections e) \<Longrightarrow>
   nodeAt (fst (step rnd (e, pos))) j = updateSignal (mode e) (roads e) (nodeAt e j)"
  by (simp add: nodeAt_def step_intersections)

lemma after_0 [simp]: "after rnd e pos 0 = e"
  by (simp add: after_def)

lemma after_Suc:
  "after rnd e pos (Suc t) =
     fst (step rnd (after rnd e pos t, snd (steps rnd t (e, pos))))"
  by (simp add: after_def)

lemma after_fields [simp]:
  "mode (after rnd e pos t) = mode e"
  "length (intersections (after rnd e pos t)) = length (intersections e)"
  "map fst (intersections (after rnd e pos t)) = map fst (intersections e)"
  "length (roads (after rnd e pos t)) = length (roads e)"
  "map id_road (roads (after rnd e pos t)) = map id_road (roads e)"
  "stepCount (after rnd e pos t) = stepCount e + t"
  by (induction t) (simp_all add: after_Suc step_roads_shape)

lemma after_nodeAt:
  "j < length (intersections e) \<Longrightarrow>
   nodeAt (after rnd e pos (Suc t)) j =
     updateSignal (mode e) (roads (after rnd e pos t)) (nodeAt (after rnd e pos t) j)"
  by (simp add: after_Suc step_nodeAt)

section \<open>Fixed cycle\<close>

lemma fixed_cycle_run:
  assumes m: "mode e = FIXED" and j: "j < length (intersections e)"
    and t0: "phaseTimer (nodeAt e j) < FIXED_CYCLE_STEPS"
  shows "phaseTimer (nodeAt (after rnd e pos k) j) =
           (phaseTimer (nodeAt e j) + k) mod FIXED_CYCLE_STEPS \<and>
         phase (nodeAt (after rnd e pos k) j) =
           (if even ((phaseTimer (nodeAt e j) + k) div FIXED_CYCLE_STEPS)
            then phase (nodeAt e j) else 1 - phase (nodeAt e j))"
proof (induction k)
  case 0
  then show ?case using t0 by simp
next
  case (Suc k)
  let ?n = "nodeAt (after rnd e pos k) j"
  let ?m = "phaseTimer (nodeAt e j) + k"
  have lt: "phaseTimer ?n < FIXED_CYCLE_STEPS"
    using Suc.IH by (simp add: FIXED_CYCLE_STEPS_def)
  have nxt: "nodeAt (after rnd e pos (Suc k)) j = updateSignal FIXED (roads (after rnd e pos k)) ?n"
    using after_nodeAt[OF j] m by simp
  have tm: "phaseTimer (nodeAt (after rnd e pos (Suc k)) j) = Suc ?m mod FIXED_CYCLE_STEPS"
    using updateSignal_FIXED(1)[OF lt] Suc.IH by (simp add: nxt mod_Suc_eq)
  have "(?m mod 6 + 1 = 6) = (Suc ?m mod 6 = 0)"
    by presburger
  then have flip: "(phaseTimer ?n + 1 = FIXED_CYCLE_STEPS) = (Suc ?m mod FIXED_CYCLE_STEPS = 0)"
    using Suc.IH by (simp add: FIXED_CYCLE_STEPS_def)
  have dv: "Suc ?m div FIXED_CYCLE_STEPS =
              (if Suc ?m mod FIXED_CYCLE_STEPS = 0 then Suc (?m div FIXED_CYCLE_STEPS)
               else ?m div FIXED_CYCLE_STEPS)"
    by (simp add: div_Suc)
  have ph: "phase (nodeAt (after rnd e pos (Suc k)) j) =
              (if even (Suc ?m div FIXED_CYCLE_STEPS)
               then phase (nodeAt e j) else 1 - phase (nodeAt e j))"
    using updateSignal_FIXED(2)[OF lt] Suc.IH unfolding nxt flip dv by simp
  show ?case using tm ph by simp
qed

section \<open>Adaptive control: a timed signal in general\<close>

lemma timer_bounded:
  fixes tm :: "nat \<Rightarrow> nat"
  assumes "tm 0 < B" and "\<And>t. tm t < B \<Longrightarrow> tm (Suc t) < B"
  shows "tm t < B"
  using assms by (induction t) simp_all

lemma timer_counts:
  fixes tm :: "nat \<Rightarrow> nat" and ph :: "nat \<Rightarrow> int"
  assumes keep: "\<And>t. ph (Suc t) = ph t \<Longrightarrow> tm (Suc t) = tm t + 1"
    and quiet: "\<forall>i. a \<le> i \<and> i < a + d \<longrightarrow> ph (Suc i) = ph i"
  shows "tm (a + d) = tm a + d"
  using quiet
proof (induction d)
  case 0
  then show ?case by simp
next
  case (Suc d)
  then have "tm (a + d) = tm a + d" by simp
  moreover have "ph (Suc (a + d)) = ph (a + d)" using Suc.prems by simp
  ultimately show ?case using keep[of "a + d"] by simp
qed

lemma change_within:
  fixes tm :: "nat \<Rightarrow> nat" and ph :: "nat \<Rightarrow> int"
  assumes keep: "\<And>t. ph (Suc t) = ph t \<Longrightarrow> tm (Suc t) = tm t + 1"
    and bound: "\<And>t. tm t < B"
  shows "\<exists>b. a \<le> b \<and> b < a + B \<and> ph (Suc b) \<noteq> ph b"
proof (rule ccontr)
  assume "\<not> ?thesis"
  then have "\<forall>i. a \<le> i \<and> i < a + B \<longrightarrow> ph (Suc i) = ph i" by blast
  from timer_counts[of ph tm, OF keep this] have "tm (a + B) = tm a + B" by simp
  with bound[of "a + B"] show False by simp
qed

lemma quiet_after_change:
  fixes tm :: "nat \<Rightarrow> nat" and ph :: "nat \<Rightarrow> int"
  assumes keep: "\<And>t. ph (Suc t) = ph t \<Longrightarrow> tm (Suc t) = tm t + 1"
    and change: "\<And>t. ph (Suc t) \<noteq> ph t \<Longrightarrow> tm (Suc t) = 0 \<and> G \<le> tm t + 1"
    and a: "ph (Suc a) \<noteq> ph a"
  shows "d + 2 \<le> G \<Longrightarrow> ph (Suc (a + 1 + d)) = ph (a + 1 + d) \<and> tm (a + 1 + d) = d"
proof (induction d)
  case 0
  have "tm (a + 1) = 0" using change[OF a] by simp
  moreover from this have "ph (Suc (a + 1)) = ph (a + 1)"
    using change[of "a + 1"] 0 by fastforce
  ultimately show ?case by simp
next
  case (Suc d)
  then have ih: "ph (Suc (a + 1 + d)) = ph (a + 1 + d)" "tm (a + 1 + d) = d" by simp_all
  have t: "tm (a + 1 + Suc d) = Suc d" using keep[OF ih(1)] ih(2) by simp
  moreover from t have "ph (Suc (a + 1 + Suc d)) = ph (a + 1 + Suc d)"
    using change[of "a + 1 + Suc d"] Suc.prems by fastforce
  ultimately show ?case by simp
qed

lemma changes_apart:
  fixes tm :: "nat \<Rightarrow> nat" and ph :: "nat \<Rightarrow> int"
  assumes keep: "\<And>t. ph (Suc t) = ph t \<Longrightarrow> tm (Suc t) = tm t + 1"
    and change: "\<And>t. ph (Suc t) \<noteq> ph t \<Longrightarrow> tm (Suc t) = 0 \<and> G \<le> tm t + 1"
    and a: "ph (Suc a) \<noteq> ph a" and b: "ph (Suc b) \<noteq> ph b" and ab: "a < b"
  shows "a + G \<le> b"
proof (rule ccontr)
  assume "\<not> a + G \<le> b"
  then have d: "b = a + 1 + (b - a - 1)" "(b - a - 1) + 2 \<le> G"
    using ab by simp_all
  from quiet_after_change[of ph tm G a "b - a - 1", OF keep change a d(2)] b d(1)
  show False by simp
qed

section \<open>Identifiers\<close>

lemma showNat_not_Nil: "showNat n \<noteq> []"
  by (subst showNat.simps) simp

lemma last_showNat: "last (showNat n) = char_of (48 + n mod 10)"
  by (subst showNat.simps) simp

lemma butlast_showNat: "butlast (showNat n) = (if n < 10 then [] else showNat (n div 10))"
  by (subst showNat.simps) simp

lemma digit_char_inj:
  assumes "char_of (48 + a mod 10 :: nat) = char_of (48 + b mod 10 :: nat)"
  shows "a mod 10 = b mod 10"
proof -
  have "(48 + a mod 10) mod 256 = (48 + b mod 10) mod 256"
    using assms by (simp add: char_of_eq_iff take_bit_eq_mod)
  moreover have "48 + a mod 10 < 256" "48 + b mod 10 < 256"
    by (simp_all add: less_le_trans[OF mod_less_divisor])
  ultimately show ?thesis by simp
qed

lemma showNat_inj: "showNat n = showNat m \<Longrightarrow> n = m"
proof (induction n arbitrary: m rule: showNat.induct)
  case (1 n)
  have md: "n mod 10 = m mod 10"
    using "1.prems" last_showNat[of n] last_showNat[of m] digit_char_inj by simp
  have bl: "butlast (showNat n) = butlast (showNat m)" using "1.prems" by simp
  show ?case
  proof (cases "n < 10")
    case True
    then have "m < 10"
      using bl showNat_not_Nil[of "m div 10"] by (auto simp: butlast_showNat split: if_splits)
    with True md show ?thesis by simp
  next
    case False
    then have m: "\<not> m < 10"
      using bl showNat_not_Nil[of "n div 10"] by (auto simp: butlast_showNat split: if_splits)
    with False bl have "showNat (n div 10) = showNat (m div 10)"
      by (simp add: butlast_showNat)
    with "1.IH"[OF False] have "n div 10 = m div 10" by simp
    with md show ?thesis by (metis div_mult_mod_eq)
  qed
qed

lemma showNat_no_underscore: "CHR ''_'' \<notin> set (showNat n)"
proof (induction n rule: showNat.induct)
  case (1 n)
  have d: "char_of (48 + k :: nat) \<noteq> CHR ''_''" if "k < 10" for k
  proof
    assume "char_of (48 + k) = CHR ''_''"
    then have "of_char (char_of (48 + k) :: char) = (of_char CHR ''_'' :: nat)" by simp
    then have "(48 + k) mod 256 = 95" by simp
    with that show False by simp
  qed
  show ?case
  proof (cases "n < 10")
    case True
    then show ?thesis using d[of n] by (subst showNat.simps) auto
  next
    case False
    then show ?thesis using "1.IH" d[of "n mod 10"] by (subst showNat.simps) auto
  qed
qed

lemma split_at_separator:
  "a \<notin> set xs \<Longrightarrow> a \<notin> set xs' \<Longrightarrow> xs @ a # ys = xs' @ a # ys' \<Longrightarrow> xs = xs' \<and> ys = ys'"
proof (induction xs arbitrary: xs')
  case Nil
  then show ?case by (cases xs') auto
next
  case (Cons x xs)
  then show ?case by (cases xs') auto
qed

lemma roadId_inj:
  assumes "roadId [x] r c = roadId [y] r' c'"
  shows "x = y \<and> r = r' \<and> c = c'"
proof -
  have xy: "x = y" and e: "showNat r @ CHR ''_'' # showNat c = showNat r' @ CHR ''_'' # showNat c'"
    using assms by (simp_all add: roadId_def)
  from split_at_separator[OF showNat_no_underscore showNat_no_underscore e]
  show ?thesis using xy showNat_inj by blast
qed

lemma showNat_no_hyphen: "CHR ''-'' \<notin> set (showNat n)"
proof (induction n rule: showNat.induct)
  case (1 n)
  have d: "char_of (48 + k :: nat) \<noteq> CHR ''-''" if "k < 10" for k
  proof
    assume "char_of (48 + k) = CHR ''-''"
    then have "of_char (char_of (48 + k) :: char) = (of_char CHR ''-'' :: nat)" by simp
    then have "(48 + k) mod 256 = 45" by simp
    with that show False by simp
  qed
  show ?case
  proof (cases "n < 10")
    case True
    then show ?thesis using d[of n] by (subst showNat.simps) auto
  next
    case False
    then show ?thesis using "1.IH" d[of "n mod 10"] by (subst showNat.simps) auto
  qed
qed

lemma nodeId_inj:
  assumes "nodeId r c = nodeId r' c'"
  shows "r = r' \<and> c = c'"
proof -
  have "showNat r @ CHR ''-'' # showNat c = showNat r' @ CHR ''-'' # showNat c'"
    using assms by (simp add: nodeId_def)
  from split_at_separator[OF showNat_no_hyphen showNat_no_hyphen this]
  show ?thesis using showNat_inj by blast
qed

lemma update_new_key: "k \<notin> set (map fst al) \<Longrightarrow> AList.update k x al = al @ [(k, x)]"
  by (induction al) auto

section \<open>Loops that may throw\<close>

lemma forEach_invariant:
  assumes init: "P [] s"
    and body: "\<And>pre x post s. xs = pre @ x # post \<Longrightarrow> P pre s \<Longrightarrow>
                 \<exists>s'. body x s = Inr s' \<and> P (pre @ [x]) s'"
  shows "\<exists>s'. forEach xs body s = Inr s' \<and> P xs s'"
proof -
  have gen: "xs = pre @ rest \<Longrightarrow> P pre s \<Longrightarrow> \<exists>s'. forEach rest body s = Inr s' \<and> P xs s'"
    for pre rest s
  proof (induction rest arbitrary: pre s)
    case Nil
    then show ?case by simp
  next
    case (Cons x rest)
    from body[OF Cons.prems] obtain s1 where s1: "body x s = Inr s1" "P (pre @ [x]) s1"
      by blast
    from Cons.IH[of "pre @ [x]" s1] Cons.prems(1) s1(2)
    obtain s' where "forEach rest body s1 = Inr s'" "P xs s'" by auto
    with s1(1) show ?case by simp
  qed
  from gen[of "[]" xs s] init show ?thesis by simp
qed

section \<open>Slots\<close>

lemma keys_map_entry: "map fst (AList.map_entry k f xs) = map fst xs"
  by (induction xs) auto

lemma keys_setOut [simp]: "map fst (setOut key d j ns) = map fst ns"
  by (simp add: setOut_def keys_map_entry)

lemma keys_setIn [simp]: "map fst (setIn key d j ns) = map fst ns"
  by (simp add: setIn_def keys_map_entry)

lemma map_of_setOut:
  "map_of (setOut key d j ns) k =
     (if k = key then map_option (\<lambda>n. n\<lparr>outRoads := (outRoads n)(d := Some j)\<rparr>) (map_of ns key)
      else map_of ns k)"
  by (simp add: setOut_def map_of_map_entry split: option.splits)

lemma map_of_setIn:
  "map_of (setIn key d j ns) k =
     (if k = key then map_option (\<lambda>n. n\<lparr>inRoads := (inRoads n)(d := Some j)\<rparr>) (map_of ns key)
      else map_of ns k)"
  by (simp add: setIn_def map_of_map_entry split: option.splits)

lemma outBelow_setOut:
  "outBelow b ns \<Longrightarrow> b \<le> b' \<Longrightarrow> j < b' \<Longrightarrow> outBelow b' (setOut key d j ns)"
  unfolding outBelow_def
  by (auto simp: map_of_setOut split: if_splits) force+

lemma outBelow_setIn: "outBelow b ns \<Longrightarrow> outBelow b (setIn key d j ns)"
  unfolding outBelow_def
  by (auto simp: map_of_setIn split: if_splits)

lemma inBelow_setIn:
  "inBelow b ns \<Longrightarrow> b \<le> b' \<Longrightarrow> j < b' \<Longrightarrow> inBelow b' (setIn key d j ns)"
  unfolding inBelow_def
  by (auto simp: map_of_setIn split: if_splits) force+

lemma inBelow_setOut: "inBelow b ns \<Longrightarrow> inBelow b (setOut key d j ns)"
  unfolding inBelow_def
  by (auto simp: map_of_setOut split: if_splits)

lemma outInj_setOut:
  assumes "outInj ns" "outBelow j ns"
  shows "outInj (setOut key d j ns)"
  unfolding outInj_def
proof (intro allI impI)
  fix k1 k2 n1 n2 d1 d2 i
  assume a: "map_of (setOut key d j ns) k1 = Some n1 \<and> map_of (setOut key d j ns) k2 = Some n2 \<and>
             outRoads n1 d1 = Some i \<and> outRoads n2 d2 = Some i"
  have old: "\<And>k n d' i'. map_of ns k = Some n \<Longrightarrow> outRoads n d' = Some i' \<Longrightarrow> i' < j"
    using assms(2) unfolding outBelow_def by blast
  have inj: "\<And>k1 k2 n1 n2 d1 d2 i. map_of ns k1 = Some n1 \<Longrightarrow> map_of ns k2 = Some n2 \<Longrightarrow>
       outRoads n1 d1 = Some i \<Longrightarrow> outRoads n2 d2 = Some i \<Longrightarrow> k1 = k2 \<and> d1 = d2"
    using assms(1) unfolding outInj_def by blast
  have src: "\<exists>m. map_of ns k = Some m \<and>
               (outRoads n d' = Some i' \<longrightarrow>
                  (k = key \<and> d' = d \<and> i' = j) \<or> (i' \<noteq> j \<and> outRoads m d' = Some i'))"
    if "map_of (setOut key d j ns) k = Some n" for k n d' i'
    using that old by (auto simp: map_of_setOut split: if_splits) (meson less_irrefl)+
  from src[of k1 n1 d1 i] src[of k2 n2 d2 i] a inj
  show "k1 = k2 \<and> d1 = d2" by (metis)
qed

lemma inInj_setIn:
  assumes "inInj ns" "inBelow j ns"
  shows "inInj (setIn key d j ns)"
  unfolding inInj_def
proof (intro allI impI)
  fix k1 k2 n1 n2 d1 d2 i
  assume a: "map_of (setIn key d j ns) k1 = Some n1 \<and> map_of (setIn key d j ns) k2 = Some n2 \<and>
             inRoads n1 d1 = Some i \<and> inRoads n2 d2 = Some i"
  have old: "\<And>k n d' i'. map_of ns k = Some n \<Longrightarrow> inRoads n d' = Some i' \<Longrightarrow> i' < j"
    using assms(2) unfolding inBelow_def by blast
  have inj: "\<And>k1 k2 n1 n2 d1 d2 i. map_of ns k1 = Some n1 \<Longrightarrow> map_of ns k2 = Some n2 \<Longrightarrow>
       inRoads n1 d1 = Some i \<Longrightarrow> inRoads n2 d2 = Some i \<Longrightarrow> k1 = k2 \<and> d1 = d2"
    using assms(1) unfolding inInj_def by blast
  have src: "\<exists>m. map_of ns k = Some m \<and>
               (inRoads n d' = Some i' \<longrightarrow>
                  (k = key \<and> d' = d \<and> i' = j) \<or> (i' \<noteq> j \<and> inRoads m d' = Some i'))"
    if "map_of (setIn key d j ns) k = Some n" for k n d' i'
    using that old by (auto simp: map_of_setIn split: if_splits) (meson less_irrefl)+
  from src[of k1 n1 d1 i] src[of k2 n2 d2 i] a inj
  show "k1 = k2 \<and> d1 = d2" by (metis)
qed

lemma outInj_setIn: "outInj ns \<Longrightarrow> outInj (setIn key d j ns)"
  unfolding outInj_def
  by (auto simp: map_of_setIn split: if_splits) blast+

lemma inInj_setOut: "inInj ns \<Longrightarrow> inInj (setOut key d j ns)"
  unfolding inInj_def
  by (auto simp: map_of_setOut split: if_splits) blast+

section \<open>Building the grid\<close>

lemma nodesQuiet_setOut: "nodesQuiet ns \<Longrightarrow> nodesQuiet (setOut key d j ns)"
  unfolding nodesQuiet_def by (auto simp: map_of_setOut split: if_splits)

lemma nodesQuiet_setIn: "nodesQuiet ns \<Longrightarrow> nodesQuiet (setIn key d j ns)"
  unfolding nodesQuiet_def by (auto simp: map_of_setIn split: if_splits)

lemma key_lookup: "k \<in> set (map fst ns) \<Longrightarrow> \<exists>n. map_of ns k = Some n"
  by (metis list.set_map map_of_eq_None_iff not_Some_eq)

lemma connectPair_ok:
  assumes wf: "wfGrid e" and un: "unstarted e"
    and uk: "uk \<in> set (map fst (intersections e))"
    and vk: "vk \<in> set (map fst (intersections e))"
    and fresh: "id1 \<notin> set (map id_road (roads e))" "id2 \<notin> set (map id_road (roads e))"
      "id1 \<noteq> id2"
  shows "\<exists>e'. connectPair uk vk d1 id1 b1 d2 id2 b2 e = Inr e' \<and> wfGrid e' \<and> unstarted e' \<and>
           sameConfig e e' \<and> map fst (intersections e') = map fst (intersections e) \<and>
           map id_road (roads e') = map id_road (roads e) @ [id1, id2]"
proof -
  from key_lookup[OF uk] obtain un where un: "map_of (intersections e) uk = Some un" by blast
  from key_lookup[OF vk] obtain vn where vn: "map_of (intersections e) vk = Some vn" by blast
  let ?k1 = "length (roads e)"
  let ?k2 = "length (roads e) + 1"
  let ?ns0 = "intersections e"
  let ?ns1 = "setOut uk d1 ?k1 ?ns0"
  let ?ns2 = "setIn vk d2 ?k1 ?ns1"
  let ?ns3 = "setOut vk d2 ?k2 ?ns2"
  let ?ns4 = "setIn uk d1 ?k2 ?ns3"
  let ?r1 = "new_DirectedRoad id1 (id_node un) (id_node vn) b1"
  let ?r2 = "new_DirectedRoad id2 (id_node vn) (id_node un) b2"
  let ?e' = "e\<lparr>roads := roads e @ [?r1, ?r2], intersections := ?ns4\<rparr>"
  have res: "connectPair uk vk d1 id1 b1 d2 id2 b2 e = Inr ?e'"
    by (simp add: connectPair_def un vn Let_def)
  have w: "distinct (map fst ?ns0)" "distinct (map id_road (roads e))"
    "inBelow ?k1 ?ns0" "outBelow ?k1 ?ns0" "inInj ?ns0" "outInj ?ns0"
    using wf by (simp_all add: wfGrid_def)
  have o1: "outInj ?ns1" using outInj_setOut[OF w(6) w(4)] .
  have ob1: "outBelow ?k2 ?ns1" using outBelow_setOut[OF w(4), of ?k2 ?k1] by simp
  have i1: "inInj ?ns1" using inInj_setOut[OF w(5)] .
  have ib1: "inBelow ?k1 ?ns1" using inBelow_setOut[OF w(3)] .
  have i2: "inInj ?ns2" using inInj_setIn[OF i1 ib1] .
  have ib2: "inBelow ?k2 ?ns2" using inBelow_setIn[OF ib1, of ?k2 ?k1] by simp
  have o2: "outInj ?ns2" using outInj_setIn[OF o1] .
  have ob2: "outBelow ?k2 ?ns2" using outBelow_setIn[OF ob1] .
  have o3: "outInj ?ns3" using outInj_setOut[OF o2 ob2] .
  have ob3: "outBelow (?k1 + 2) ?ns3" using outBelow_setOut[OF ob2, of "?k1 + 2" ?k2] by simp
  have i3: "inInj ?ns3" using inInj_setOut[OF i2] .
  have ib3: "inBelow ?k2 ?ns3" using inBelow_setOut[OF ib2] .
  have i4: "inInj ?ns4" using inInj_setIn[OF i3 ib3] .
  have ib4: "inBelow (?k1 + 2) ?ns4" using inBelow_setIn[OF ib3, of "?k1 + 2" ?k2] by simp
  have o4: "outInj ?ns4" using outInj_setIn[OF o3] .
  have ob4: "outBelow (?k1 + 2) ?ns4" using outBelow_setIn[OF ob3] .
  have ids: "map id_road (roads ?e') = map id_road (roads e) @ [id1, id2]"
    by (simp add: new_DirectedRoad_def)
  have wf': "wfGrid ?e'"
    unfolding wfGrid_def using w(1,2) fresh i4 o4 ib4 ob4
    by (simp add: new_DirectedRoad_def)
  have q: "nodesQuiet ?ns4"
    using assms(2) by (simp add: unstarted_def nodesQuiet_setOut nodesQuiet_setIn)
  have un': "unstarted ?e'"
    using assms(2) q by (auto simp: unstarted_def new_DirectedRoad_def)
  have "sameConfig e ?e'" by (simp add: sameConfig_def)
  with res wf' un' ids show ?thesis by (intro exI[of _ ?e']) simp
qed


lemma roadIdsAt_fresh:
  assumes "set (map id_road (roads e)) \<subseteq> roadIdsAt pre" "rc \<notin> set pre"
  shows "roadId [x] (fst rc) (snd rc) \<notin> set (map id_road (roads e))"
proof
  assume "roadId [x] (fst rc) (snd rc) \<in> set (map id_road (roads e))"
  with assms(1) obtain y rc' where "rc' \<in> set pre"
    "roadId [x] (fst rc) (snd rc) = roadId [y] (fst rc') (snd rc')"
    unfolding roadIdsAt_def by blast
  with roadId_inj have "rc = rc'" by (metis prod.expand)
  with \<open>rc' \<in> set pre\<close> assms(2) show False by simp
qed

lemma roadIdsAt_mono: "roadIdsAt pre \<subseteq> roadIdsAt (pre @ [rc])"
  unfolding roadIdsAt_def by auto

lemma roadIdsAt_last:
  "x \<in> {CHR ''E'', CHR ''W'', CHR ''S'', CHR ''N''} \<Longrightarrow>
   roadId [x] (fst rc) (snd rc) \<in> roadIdsAt (pre @ [rc])"
proof -
  assume "x \<in> {CHR ''E'', CHR ''W'', CHR ''S'', CHR ''N''}"
  then have "roadId [x] (fst rc) (snd rc) = roadId [x] (fst rc) (snd rc) \<and>
             x \<in> {CHR ''E'', CHR ''W'', CHR ''S'', CHR ''N''} \<and> rc \<in> set (pre @ [rc])"
    by simp
  then show ?thesis unfolding roadIdsAt_def by blast
qed

lemma connectRoads_ok:
  assumes wf: "wfGrid e" and un: "unstarted e"
    and ids: "set (map id_road (roads e)) \<subseteq> roadIdsAt pre" and new: "rc \<notin> set pre"
    and k0: "nodeId (fst rc) (snd rc) \<in> set (map fst (intersections e))"
    and kE: "int (snd rc) < cols e - 1 \<Longrightarrow>
               nodeId (fst rc) (snd rc + 1) \<in> set (map fst (intersections e))"
    and kS: "int (fst rc) < rows e - 1 \<Longrightarrow>
               nodeId (fst rc + 1) (snd rc) \<in> set (map fst (intersections e))"
  shows "\<exists>e'. connectRoads rc e = Inr e' \<and> wfGrid e' \<and> unstarted e' \<and> sameConfig e e' \<and>
           map fst (intersections e') = map fst (intersections e) \<and>
           set (map id_road (roads e')) \<subseteq> roadIdsAt (pre @ [rc])"
proof -
  let ?r = "fst rc" and ?c = "snd rc"
  let ?h = "if int ?c < cols e - 1
            then connectPair (nodeId ?r ?c) (nodeId ?r (?c + 1))
                   E (roadId ''E'' ?r ?c) (?c = 0)
                   W (roadId ''W'' ?r ?c) (int ?c + 1 = cols e - 1) e
            else Inr e"
  have fr: "roadId [x] ?r ?c \<notin> set (map id_road (roads e))" for x
    using roadIdsAt_fresh[OF ids new] .
  have ne: "x \<noteq> y \<Longrightarrow> roadId [x] ?r ?c \<noteq> roadId [y] ?r ?c" for x y
    using roadId_inj by blast
  have h: "\<exists>e1. ?h = Inr e1 \<and> wfGrid e1 \<and> unstarted e1 \<and> sameConfig e e1 \<and>
             map fst (intersections e1) = map fst (intersections e) \<and>
             set (map id_road (roads e1)) \<subseteq>
               set (map id_road (roads e)) \<union> {roadId ''E'' ?r ?c, roadId ''W'' ?r ?c}"
  proof (cases "int ?c < cols e - 1")
    case True
    from connectPair_ok[OF wf un k0 kE[OF True] fr[of "CHR ''E''"] fr[of "CHR ''W''"]
        ne[of "CHR ''E''" "CHR ''W''"], of E "?c = 0" W "int ?c + 1 = cols e - 1"]
    obtain e1 where a: "connectPair (nodeId ?r ?c) (nodeId ?r (?c + 1))
                   E (roadId ''E'' ?r ?c) (?c = 0)
                   W (roadId ''W'' ?r ?c) (int ?c + 1 = cols e - 1) e = Inr e1"
      "wfGrid e1" "unstarted e1" "sameConfig e e1"
      "map fst (intersections e1) = map fst (intersections e)"
      "map id_road (roads e1) =
         map id_road (roads e) @ [roadId ''E'' ?r ?c, roadId ''W'' ?r ?c]"
      by auto
    have "set (map id_road (roads e1)) \<subseteq>
            set (map id_road (roads e)) \<union> {roadId ''E'' ?r ?c, roadId ''W'' ?r ?c}"
      unfolding a(6) by simp
    with a show ?thesis unfolding if_P[OF True] by blast
  next
    case False
    then show ?thesis using wf un by (auto simp: sameConfig_def)
  qed
  then obtain e1 where e1: "?h = Inr e1" "wfGrid e1" "unstarted e1" "sameConfig e e1"
    "map fst (intersections e1) = map fst (intersections e)"
    "set (map id_road (roads e1)) \<subseteq>
       set (map id_road (roads e)) \<union> {roadId ''E'' ?r ?c, roadId ''W'' ?r ?c}"
    by blast
  let ?v = "if int ?r < rows e1 - 1
            then connectPair (nodeId ?r ?c) (nodeId (?r + 1) ?c)
                   S (roadId ''S'' ?r ?c) (?r = 0)
                   N (roadId ''N'' ?r ?c) (int ?r + 1 = rows e1 - 1) e1
            else Inr e1"
  have res: "connectRoads rc e = ?v"
    using e1(1) by (simp add: connectRoads_def Let_def)
  have fr1: "roadId [x] ?r ?c \<notin> set (map id_road (roads e1))"
    if "x \<noteq> CHR ''E''" "x \<noteq> CHR ''W''" for x
    using fr[of x] e1(6) ne[of x "CHR ''E''"] ne[of x "CHR ''W''"] that by auto
  have rw: "rows e1 = rows e" using e1(4) by (simp add: sameConfig_def)
  have k0': "nodeId ?r ?c \<in> set (map fst (intersections e1))" using k0 e1(5) by simp
  have v: "\<exists>e'. ?v = Inr e' \<and> wfGrid e' \<and> unstarted e' \<and> sameConfig e1 e' \<and>
             map fst (intersections e') = map fst (intersections e1) \<and>
             set (map id_road (roads e')) \<subseteq>
               set (map id_road (roads e1)) \<union> {roadId ''S'' ?r ?c, roadId ''N'' ?r ?c}"
  proof (cases "int ?r < rows e1 - 1")
    case True
    then have kS': "nodeId (?r + 1) ?c \<in> set (map fst (intersections e1))"
      using kS rw e1(5) by simp
    from connectPair_ok[OF e1(2) e1(3) k0' kS' fr1[of "CHR ''S''"] fr1[of "CHR ''N''"]
        ne[of "CHR ''S''" "CHR ''N''"], of S "?r = 0" N "int ?r + 1 = rows e1 - 1"]
    obtain e2 where a: "connectPair (nodeId ?r ?c) (nodeId (?r + 1) ?c)
                   S (roadId ''S'' ?r ?c) (?r = 0)
                   N (roadId ''N'' ?r ?c) (int ?r + 1 = rows e1 - 1) e1 = Inr e2"
      "wfGrid e2" "unstarted e2" "sameConfig e1 e2"
      "map fst (intersections e2) = map fst (intersections e1)"
      "map id_road (roads e2) =
         map id_road (roads e1) @ [roadId ''S'' ?r ?c, roadId ''N'' ?r ?c]"
      by auto
    have "set (map id_road (roads e2)) \<subseteq>
            set (map id_road (roads e1)) \<union> {roadId ''S'' ?r ?c, roadId ''N'' ?r ?c}"
      unfolding a(6) by simp
    with a show ?thesis unfolding if_P[OF True] by blast
  next
    case False
    then show ?thesis using e1(2,3) by (auto simp: sameConfig_def)
  qed
  then obtain e' where e': "?v = Inr e'" "wfGrid e'" "unstarted e'" "sameConfig e1 e'"
    "map fst (intersections e') = map fst (intersections e1)"
    "set (map id_road (roads e')) \<subseteq>
       set (map id_road (roads e1)) \<union> {roadId ''S'' ?r ?c, roadId ''N'' ?r ?c}"
    by blast
  have four: "{roadId ''E'' ?r ?c, roadId ''W'' ?r ?c, roadId ''S'' ?r ?c, roadId ''N'' ?r ?c}
                \<subseteq> roadIdsAt (pre @ [rc])"
    using roadIdsAt_last[of _ rc pre] by simp
  have sub: "set (map id_road (roads e')) \<subseteq> roadIdsAt (pre @ [rc])"
    using e'(6) e1(6) ids roadIdsAt_mono[of pre rc] four by blast
  have "sameConfig e e'" using e1(4) e'(4) by (simp add: sameConfig_def)
  with res e' e1(5) sub show ?thesis by (intro exI[of _ e']) simp
qed

lemma product_Nil_right: "List.product xs [] = []"
  by (induction xs) simp_all

lemma gridCells_distinct: "distinct (gridCells e)"
  by (simp add: gridCells_def distinct_product)

lemma gridCells_mem:
  "rc \<in> set (gridCells e) \<longleftrightarrow> int (fst rc) < rows e \<and> int (snd rc) < cols e"
  by (cases rc) (auto simp: gridCells_def)

lemma gridCells_cong: "sameConfig e e' \<Longrightarrow> gridCells e' = gridCells e"
  by (simp add: gridCells_def sameConfig_def)

lemma prefix_fresh:
  assumes "distinct xs" "xs = pre @ x # post"
  shows "x \<notin> set pre" "x \<in> set xs"
  using assms by auto

text \<open>The first loop of \<open>buildGrid\<close>: it creates an intersection for every cell.\<close>

lemma cellKeys_inj: "inj_on (\<lambda>rc. nodeId (fst rc) (snd rc)) A"
  by (rule inj_onI) (metis nodeId_inj prod.expand)

lemma createIntersections_ok:
  assumes "roads e = []" "intersections e = []"
  shows "\<exists>e1. forEach (gridCells e) createIntersection e = Inr e1 \<and> roads e1 = [] \<and>
           sameConfig e e1 \<and> wfGrid e1 \<and> unstarted e1 \<and>
           map fst (intersections e1) = map (\<lambda>rc. nodeId (fst rc) (snd rc)) (gridCells e)"
proof -
  let ?nid = "\<lambda>rc. nodeId (fst rc) (snd rc)"
  define P where "P = (\<lambda>pre e1. roads e1 = [] \<and> sameConfig e e1 \<and>
      map fst (intersections e1) = map ?nid pre \<and>
      (\<forall>k n. map_of (intersections e1) k = Some n \<longrightarrow>
         inRoads n = (\<lambda>d. None) \<and> outRoads n = (\<lambda>d. None) \<and> phase n = 0 \<and> phaseTimer n = 0))"
  have init: "P [] e"
    using assms by (simp add: P_def sameConfig_def)
  have body: "\<exists>s'. createIntersection x s = Inr s' \<and> P (pre @ [x]) s'"
    if g: "gridCells e = pre @ x # post" and p: "P pre s" for pre x post s
  proof -
    let ?s' = "s\<lparr>intersections :=
                 AList.update (?nid x) (new_Intersection (?nid x) (fst x) (snd x)) (intersections s)\<rparr>"
    have r: "createIntersection x s = Inr ?s'"
      by (simp add: createIntersection_def Let_def)
    have "x \<notin> set pre" using prefix_fresh(1)[OF gridCells_distinct g] .
    have "?nid x \<notin> ?nid ` set pre"
    proof
      assume "?nid x \<in> ?nid ` set pre"
      then obtain y where y: "y \<in> set pre" "?nid x = ?nid y" by blast
      with nodeId_inj have "x = y" by (metis prod.expand)
      with y(1) \<open>x \<notin> set pre\<close> show False by simp
    qed
    then have "?nid x \<notin> set (map fst (intersections s))"
      using p unfolding P_def by simp
    from update_new_key[OF this]
    have app: "intersections ?s' =
                 intersections s @ [(?nid x, new_Intersection (?nid x) (fst x) (snd x))]"
      by simp
    have "P (pre @ [x]) ?s'"
      unfolding P_def
    proof (intro conjI)
      show "roads ?s' = []" using p by (simp add: P_def)
      show "sameConfig e ?s'" using p by (simp add: P_def sameConfig_def)
      show "map fst (intersections ?s') = map ?nid (pre @ [x])"
        unfolding app using p by (simp add: P_def)
      show "\<forall>k n. map_of (intersections ?s') k = Some n \<longrightarrow>
         inRoads n = (\<lambda>d. None) \<and> outRoads n = (\<lambda>d. None) \<and> phase n = 0 \<and> phaseTimer n = 0"
        using p
        by (auto simp: P_def AList.update_conv' new_Intersection_def split: if_splits)
    qed
    with r show ?thesis by blast
  qed
  have "\<exists>s'. forEach (gridCells e) createIntersection e = Inr s' \<and> P (gridCells e) s'"
  proof (rule forEach_invariant[where P = P])
    show "P [] e" by (rule init)
  next
    fix pre x post s
    assume "gridCells e = pre @ x # post" "P pre s"
    then show "\<exists>s'. createIntersection x s = Inr s' \<and> P (pre @ [x]) s'" by (rule body)
  qed
  then obtain e1 where e1: "forEach (gridCells e) createIntersection e = Inr e1"
    "P (gridCells e) e1"
    by blast
  have keys: "map fst (intersections e1) = map ?nid (gridCells e)"
    using e1(2) unfolding P_def by simp
  have slots: "inRoads n d = None \<and> outRoads n d = None"
    if "map_of (intersections e1) k = Some n" for k n d
    using e1(2) that unfolding P_def by metis
  have "inBelow (length (roads e1)) (intersections e1)"
    "outBelow (length (roads e1)) (intersections e1)"
    "inInj (intersections e1)" "outInj (intersections e1)"
    unfolding inBelow_def outBelow_def inInj_def outInj_def
    using slots by (metis option.distinct(1))+
  moreover have "distinct (map fst (intersections e1))"
    unfolding keys using gridCells_distinct cellKeys_inj by (simp add: distinct_map)
  moreover have "distinct (map id_road (roads e1))"
    using e1(2) unfolding P_def by simp
  ultimately have "wfGrid e1"
    unfolding wfGrid_def by blast
  moreover have "unstarted e1"
    using e1(2) unfolding P_def unstarted_def nodesQuiet_def by simp
  ultimately show ?thesis
    using e1 keys unfolding P_def by (intro exI[of _ e1]) simp
qed

text \<open>The second loop: it connects every cell to its eastern and southern neighbour.\<close>

lemma connectAll_ok:
  assumes wf: "wfGrid e1" and un: "unstarted e1" and r: "roads e1 = []"
    and keys: "\<forall>rc\<in>set (gridCells e1). nodeId (fst rc) (snd rc) \<in> set (map fst (intersections e1))"
  shows "\<exists>e2. forEach (gridCells e1) connectRoads e1 = Inr e2 \<and> wfGrid e2 \<and> unstarted e2 \<and>
           sameConfig e1 e2 \<and> map fst (intersections e2) = map fst (intersections e1)"
proof -
  define P where "P = (\<lambda>pre e2. wfGrid e2 \<and> unstarted e2 \<and> sameConfig e1 e2 \<and>
      map fst (intersections e2) = map fst (intersections e1) \<and>
      set (map id_road (roads e2)) \<subseteq> roadIdsAt pre)"
  have init: "P [] e1"
    using wf un r by (simp add: P_def sameConfig_def)
  have body: "\<exists>s'. connectRoads x s = Inr s' \<and> P (pre @ [x]) s'"
    if g: "gridCells e1 = pre @ x # post" and p: "P pre s" for pre x post s
  proof -
    have x: "x \<notin> set pre" "x \<in> set (gridCells e1)"
      using prefix_fresh[OF gridCells_distinct g] by simp_all
    have cfg: "rows s = rows e1" "cols s = cols e1"
      using p by (simp_all add: P_def sameConfig_def)
    have ks: "map fst (intersections s) = map fst (intersections e1)"
      using p by (simp add: P_def)
    have k0: "nodeId (fst x) (snd x) \<in> set (map fst (intersections s))"
      using keys x(2) ks by simp
    have kE: "nodeId (fst x) (snd x + 1) \<in> set (map fst (intersections s))"
      if "int (snd x) < cols s - 1"
    proof -
      have "(fst x, snd x + 1) \<in> set (gridCells e1)"
        using that x(2) cfg by (simp add: gridCells_mem)
      with keys ks show ?thesis by force
    qed
    have kS: "nodeId (fst x + 1) (snd x) \<in> set (map fst (intersections s))"
      if "int (fst x) < rows s - 1"
    proof -
      have "(fst x + 1, snd x) \<in> set (gridCells e1)"
        using that x(2) cfg by (simp add: gridCells_mem)
      with keys ks show ?thesis by force
    qed
    from p have w: "wfGrid s" "unstarted s" "set (map id_road (roads s)) \<subseteq> roadIdsAt pre"
      by (simp_all add: P_def)
    from connectRoads_ok[OF w(1) w(2) w(3) x(1) k0 kE kS]
    obtain s' where s': "connectRoads x s = Inr s'" "wfGrid s'" "unstarted s'" "sameConfig s s'"
      "map fst (intersections s') = map fst (intersections s)"
      "set (map id_road (roads s')) \<subseteq> roadIdsAt (pre @ [x])"
      by blast
    have "sameConfig e1 s'"
      using p s'(4) by (simp add: P_def sameConfig_def)
    with s' ks show ?thesis unfolding P_def by (intro exI[of _ s']) simp
  qed
  have "\<exists>s'. forEach (gridCells e1) connectRoads e1 = Inr s' \<and> P (gridCells e1) s'"
  proof (rule forEach_invariant[where P = P])
    show "P [] e1" by (rule init)
  next
    fix pre x post s
    assume "gridCells e1 = pre @ x # post" "P pre s"
    then show "\<exists>s'. connectRoads x s = Inr s' \<and> P (pre @ [x]) s'" by (rule body)
  qed
  then show ?thesis unfolding P_def by blast
qed

lemma buildGrid_ok:
  assumes "roads e = []" "intersections e = []"
  shows "\<exists>e2. buildGrid e = Inr e2 \<and> wfGrid e2 \<and> unstarted e2 \<and> sameConfig e e2 \<and>
           map fst (intersections e2) = map (\<lambda>rc. nodeId (fst rc) (snd rc)) (gridCells e) \<and>
           (gridCells e = [] \<longrightarrow> roads e2 = [])"
proof -
  from createIntersections_ok[OF assms]
  obtain e1 where e1: "forEach (gridCells e) createIntersection e = Inr e1" "roads e1 = []"
    "sameConfig e e1" "wfGrid e1" "unstarted e1"
    "map fst (intersections e1) = map (\<lambda>rc. nodeId (fst rc) (snd rc)) (gridCells e)"
    by blast
  have g: "gridCells e1 = gridCells e" using gridCells_cong[OF e1(3)] .
  have keys: "\<forall>rc\<in>set (gridCells e1).
                nodeId (fst rc) (snd rc) \<in> set (map fst (intersections e1))"
    unfolding e1(6) g by simp
  from connectAll_ok[OF e1(4) e1(5) e1(2) keys]
  obtain e2 where e2: "forEach (gridCells e1) connectRoads e1 = Inr e2" "wfGrid e2"
    "unstarted e2" "sameConfig e1 e2"
    "map fst (intersections e2) = map fst (intersections e1)"
    by auto
  have b: "buildGrid e = Inr e2"
    using e1(1) e2(1) by (simp add: buildGrid_def)
  have cfg: "sameConfig e e2" using e1(3) e2(4) by (simp add: sameConfig_def)
  have "roads e2 = []" if "gridCells e = []"
  proof -
    have "e2 = e1" using e2(1) g that by simp
    with e1(2) show ?thesis by simp
  qed
  with b e2(2,3,5) e1(6) cfg show ?thesis by (intro exI[of _ e2]) simp
qed

lemma constructor_ok:
  "\<exists>e. new_SimulationEngine rws cls rate m = Inr e \<and> wfGrid e \<and> unstarted e \<and>
        rows e = rws \<and> cols e = cls \<and> inflowRate e = rate \<and> mode e = m \<and>
        totalThroughput e = 0 \<and> stepCount e = 0 \<and>
        map fst (intersections e) = map (\<lambda>rc. nodeId (fst rc) (snd rc)) (gridCells e) \<and>
        (rws \<le> 0 \<or> cls \<le> 0 \<longrightarrow> roads e = [] \<and> intersections e = [])"
proof -
  let ?e0 = "\<lparr>roads = [], intersections = [], totalThroughput = 0, stepCount = 0,
              mode = m, rows = rws, cols = cls, inflowRate = rate\<rparr>"
  from buildGrid_ok[of ?e0]
  obtain e where e: "buildGrid ?e0 = Inr e" "wfGrid e" "unstarted e" "sameConfig ?e0 e"
    "map fst (intersections e) = map (\<lambda>rc. nodeId (fst rc) (snd rc)) (gridCells ?e0)"
    "gridCells ?e0 = [] \<longrightarrow> roads e = []"
    by auto
  have g: "gridCells e = gridCells ?e0" using gridCells_cong[OF e(4)] .
  have "gridCells ?e0 = []" if "rws \<le> 0 \<or> cls \<le> 0"
    using that by (auto simp: gridCells_def product_Nil_right)
  with e g show ?thesis
    by (intro exI[of _ e]) (auto simp: new_SimulationEngine_def sameConfig_def)
qed

lemma length_gridCells: "length (gridCells e) = nat (rows e) * nat (cols e)"
  by (simp add: gridCells_def length_product)

section \<open>The transfers of one tick\<close>

lemma distinct_concat_map:
  assumes "distinct xs" "\<And>x. x \<in> set xs \<Longrightarrow> distinct (g x)"
    and "\<And>x y. x \<in> set xs \<Longrightarrow> y \<in> set xs \<Longrightarrow> x \<noteq> y \<Longrightarrow> set (g x) \<inter> set (g y) = {}"
  shows "distinct (concat (map g xs))"
  using assms
proof (induction xs)
  case Nil
  then show ?case by simp
next
  case (Cons x xs)
  have "distinct (concat (map g xs))"
    using Cons by simp
  moreover have "distinct (g x)" using Cons.prems(2) by simp
  moreover have "set (g x) \<inter> set (concat (map g xs)) = {}"
  proof -
    have "set (g x) \<inter> set (g y) = {}" if "y \<in> set xs" for y
      using Cons.prems(1) Cons.prems(3)[of x y] that by auto
    then show ?thesis by auto
  qed
  ultimately show ?case by simp
qed

lemma alist_entry: "distinct (map fst ns) \<Longrightarrow> kn \<in> set ns \<Longrightarrow> map_of ns (fst kn) = Some (snd kn)"
  by (cases kn) simp

lemma alist_same_key:
  "distinct (map fst ns) \<Longrightarrow> x \<in> set ns \<Longrightarrow> y \<in> set ns \<Longrightarrow> fst x = fst y \<Longrightarrow> x = y"
  by (metis alist_entry option.inject prod.expand)

lemma roadTargets_append [simp]: "roadTargets (xs @ ys) = roadTargets xs @ roadTargets ys"
  by (simp add: roadTargets_def)

lemma roadTargets_concat: "roadTargets (concat xss) = concat (map roadTargets xss)"
  by (induction xss) (simp_all add: roadTargets_def)

lemma roadTargets_mem: "j \<in> set (roadTargets ts) \<longleftrightarrow> (\<exists>t\<in>set ts. tgt t = Road j)"
  by (induction ts) (auto simp: roadTargets_def split: target.splits)

lemma roadTargets_routeOne:
  "roadTargets (routeOne rs n d) = [] \<or>
   (\<exists>j. roadTargets (routeOne rs n d) = [j] \<and> outRoads n (opposite d) = Some j)"
  by (simp add: routeOne_def roadTargets_def split: option.splits)

lemma sources_routeOne:
  "map src (routeOne rs n d) = [] \<or>
   (\<exists>i. map src (routeOne rs n d) = [i] \<and> inRoads n d = Some i)"
  by (simp add: routeOne_def split: option.splits)

lemma opposite_inj: "opposite a = opposite b \<Longrightarrow> a = b"
  by (cases a; cases b) simp_all

lemma stepFlow_two:
  "\<exists>a b. a \<noteq> b \<and> stepFlow rs n = routeOne rs n a @ routeOne rs n b"
  by (auto simp: stepFlow_routeFlow_spec routeFlow_spec_def)

lemma distinct_targets_stepFlow:
  assumes "\<And>a b j. outRoads n a = Some j \<Longrightarrow> outRoads n b = Some j \<Longrightarrow> a = b"
  shows "distinct (roadTargets (stepFlow rs n))"
proof -
  from stepFlow_two obtain a b where ab: "a \<noteq> b" "stepFlow rs n = routeOne rs n a @ routeOne rs n b"
    by blast
  have "opposite a \<noteq> opposite b" using ab(1) opposite_inj by blast
  then show ?thesis
    using roadTargets_routeOne[of rs n a] roadTargets_routeOne[of rs n b] assms
    unfolding ab(2) by auto
qed

lemma distinct_sources_stepFlow:
  assumes "\<And>a b j. inRoads n a = Some j \<Longrightarrow> inRoads n b = Some j \<Longrightarrow> a = b"
  shows "distinct (map src (stepFlow rs n))"
proof -
  from stepFlow_two obtain a b where ab: "a \<noteq> b" "stepFlow rs n = routeOne rs n a @ routeOne rs n b"
    by blast
  show ?thesis
    using sources_routeOne[of rs n a] sources_routeOne[of rs n b] assms ab(1)
    unfolding ab(2) by auto
qed

lemma targets_stepFlow_slot:
  "j \<in> set (roadTargets (stepFlow rs n)) \<Longrightarrow> \<exists>d. outRoads n d = Some j"
  using stepFlow_cases[of _ rs n] by (fastforce simp: roadTargets_mem)

lemma sources_stepFlow_slot:
  "i \<in> set (map src (stepFlow rs n)) \<Longrightarrow> \<exists>d. inRoads n d = Some i"
  using stepFlow_cases[of _ rs n] by fastforce

lemma distinct_targets_collect:
  assumes d: "distinct (map fst ns)" and inj: "outInj ns"
  shows "distinct (roadTargets (collectTransfers rs ns))"
proof -
  let ?g = "\<lambda>kn. roadTargets (stepFlow rs (snd kn))"
  have eq: "roadTargets (collectTransfers rs ns) = concat (map ?g ns)"
    by (simp add: collectTransfers_def roadTargets_concat comp_def)
  have inj': "fst x = fst y \<and> a = b"
    if "x \<in> set ns" "y \<in> set ns" "outRoads (snd x) a = Some j" "outRoads (snd y) b = Some j"
    for x y a b j
    using inj alist_entry[OF d that(1)] alist_entry[OF d that(2)] that(3,4)
    unfolding outInj_def by blast
  show ?thesis
    unfolding eq
  proof (rule distinct_concat_map)
    show "distinct ns" using d by (simp add: distinct_map)
  next
    fix x assume "x \<in> set ns"
    then show "distinct (?g x)"
      using inj'[of x x] by (intro distinct_targets_stepFlow) blast
  next
    fix x y assume xy: "x \<in> set ns" "y \<in> set ns" "x \<noteq> y"
    show "set (?g x) \<inter> set (?g y) = {}"
    proof (rule ccontr)
      assume "set (?g x) \<inter> set (?g y) \<noteq> {}"
      then obtain j where "j \<in> set (?g x)" "j \<in> set (?g y)" by blast
      then obtain a b where "outRoads (snd x) a = Some j" "outRoads (snd y) b = Some j"
        using targets_stepFlow_slot by blast
      with inj'[OF xy(1,2)] have "fst x = fst y" by blast
      with alist_same_key[OF d xy(1,2)] xy(3) show False by blast
    qed
  qed
qed

lemma distinct_sources_collect:
  assumes d: "distinct (map fst ns)" and inj: "inInj ns"
  shows "distinct (map src (collectTransfers rs ns))"
proof -
  let ?g = "\<lambda>kn. map src (stepFlow rs (snd kn))"
  have eq: "map src (collectTransfers rs ns) = concat (map ?g ns)"
    by (simp add: collectTransfers_def map_concat comp_def)
  have inj': "fst x = fst y \<and> a = b"
    if "x \<in> set ns" "y \<in> set ns" "inRoads (snd x) a = Some j" "inRoads (snd y) b = Some j"
    for x y a b j
    using inj alist_entry[OF d that(1)] alist_entry[OF d that(2)] that(3,4)
    unfolding inInj_def by blast
  show ?thesis
    unfolding eq
  proof (rule distinct_concat_map)
    show "distinct ns" using d by (simp add: distinct_map)
  next
    fix x assume "x \<in> set ns"
    then show "distinct (?g x)"
      using inj'[of x x] by (intro distinct_sources_stepFlow) blast
  next
    fix x y assume xy: "x \<in> set ns" "y \<in> set ns" "x \<noteq> y"
    show "set (?g x) \<inter> set (?g y) = {}"
    proof (rule ccontr)
      assume "set (?g x) \<inter> set (?g y) \<noteq> {}"
      then obtain j where "j \<in> set (?g x)" "j \<in> set (?g y)" by blast
      then obtain a b where "inRoads (snd x) a = Some j" "inRoads (snd y) b = Some j"
        using sources_stepFlow_slot by blast
      with inj'[OF xy(1,2)] have "fst x = fst y" by blast
      with alist_same_key[OF d xy(1,2)] xy(3) show False by blast
    qed
  qed
qed

text \<open>Updating the signals moves no road: the predicates on slots are kept.\<close>

lemma map_of_signals:
  "map_of (map (\<lambda>kn. (fst kn, f (snd kn))) ns) k = map_option f (map_of ns k)"
  by (induction ns) auto

lemma signals_keep_slots:
  fixes f :: "Intersection \<Rightarrow> Intersection"
  assumes "\<And>n. inRoads (f n) = inRoads n" "\<And>n. outRoads (f n) = outRoads n"
  shows "inBelow b ns \<Longrightarrow> inBelow b (map (\<lambda>kn. (fst kn, f (snd kn))) ns)"
    and "outBelow b ns \<Longrightarrow> outBelow b (map (\<lambda>kn. (fst kn, f (snd kn))) ns)"
    and "inInj ns \<Longrightarrow> inInj (map (\<lambda>kn. (fst kn, f (snd kn))) ns)"
    and "outInj ns \<Longrightarrow> outInj (map (\<lambda>kn. (fst kn, f (snd kn))) ns)"
  unfolding inBelow_def outBelow_def inInj_def outInj_def map_of_signals
  using assms by (auto, (metis)+)

lemma wfGrid_step:
  assumes "wfGrid e"
  shows "wfGrid (fst (step rnd (e, pos)))"
proof -
  let ?e' = "fst (step rnd (e, pos))"
  note keep = signals_keep_slots[of "updateSignal (mode e) (roads e)", OF updateSignal_slots(1,2)]
  have w: "distinct (map fst (intersections e))" "distinct (map id_road (roads e))"
    "inBelow (length (roads e)) (intersections e)" "outBelow (length (roads e)) (intersections e)"
    "inInj (intersections e)" "outInj (intersections e)"
    using assms by (simp_all add: wfGrid_def)
  have "distinct (map fst (intersections ?e'))" using w(1) by simp
  moreover have "distinct (map id_road (roads ?e'))" using w(2) by (simp add: step_roads_shape)
  moreover have "inBelow (length (roads ?e')) (intersections ?e')"
    using keep(1)[OF w(3)] by (simp add: step_roads_shape step_intersections)
  moreover have "outBelow (length (roads ?e')) (intersections ?e')"
    using keep(2)[OF w(4)] by (simp add: step_roads_shape step_intersections)
  moreover have "inInj (intersections ?e')"
    using keep(3)[OF w(5)] by (simp add: step_intersections)
  moreover have "outInj (intersections ?e')"
    using keep(4)[OF w(6)] by (simp add: step_intersections)
  ultimately show ?thesis unfolding wfGrid_def by blast
qed

lemma wfGrid_after: "wfGrid e \<Longrightarrow> wfGrid (after rnd e pos t)"
  by (induction t) (simp_all add: after_Suc wfGrid_step)

section \<open>Aggregation\<close>

lemma aggregate_inflows:
  "fst (aggregate rs ts (fi, fo, thr)) k =
     fi k + sum_list (map amount (filter (intoId rs k) ts))"
  by (induction ts arbitrary: fi fo thr)
     (auto simp: Let_def intoId_def split: target.splits)

lemma aggregate_outflows:
  "fst (snd (aggregate rs ts (fi, fo, thr))) k =
     fo k + sum_list (map amount (filter (\<lambda>t. id_road (rs ! src t) = k) ts))"
  by (induction ts arbitrary: fi fo thr)
     (auto simp: Let_def split: target.splits)

lemma aggregate_throughput:
  "snd (snd (aggregate rs ts (fi, fo, thr))) =
     thr + sum_list (map amount (filter (\<lambda>t. tgt t = EXIT) ts))"
  by (induction ts arbitrary: fi fo thr)
     (auto simp: Let_def split: target.splits)

lemma at_most_one_target:
  "distinct (roadTargets ts) \<Longrightarrow> length (filter (\<lambda>t. tgt t = Road i) ts) \<le> 1"
proof (induction ts)
  case Nil
  then show ?case by simp
next
  case (Cons t ts)
  show ?case
  proof (cases "tgt t = Road i")
    case True
    then have "i \<notin> set (roadTargets ts)"
      using Cons.prems by (simp add: roadTargets_def)
    then have "filter (\<lambda>t. tgt t = Road i) ts = []"
      by (auto simp: roadTargets_mem filter_empty_conv)
    with True show ?thesis by simp
  next
    case False
    then show ?thesis using Cons by (auto simp: roadTargets_def split: target.splits)
  qed
qed

lemma at_most_one_source:
  "distinct (map src ts) \<Longrightarrow> length (filter (\<lambda>t. src t = i) ts) \<le> 1"
proof (induction ts)
  case Nil
  then show ?case by simp
next
  case (Cons t ts)
  show ?case
  proof (cases "src t = i")
    case True
    then have "filter (\<lambda>t. src t = i) ts = []"
      using Cons.prems by (auto simp: filter_empty_conv image_iff)
    with True show ?thesis by simp
  next
    case False
    then show ?thesis using Cons by auto
  qed
qed

lemma sum_at_most_one:
  fixes f :: "'a \<Rightarrow> real"
  assumes "length xs \<le> 1" "\<And>x. x \<in> set xs \<Longrightarrow> 0 \<le> f x \<and> f x \<le> b" "0 \<le> b"
  shows "0 \<le> sum_list (map f xs) \<and> sum_list (map f xs) \<le> b"
proof (cases xs)
  case Nil
  then show ?thesis using assms(3) by simp
next
  case (Cons x ys)
  then have "ys = []" using assms(1) by simp
  with Cons assms(2)[of x] show ?thesis by simp
qed

section \<open>The densities stay within bounds\<close>

lemma getDemand_nonneg: "cells r \<noteq> [] \<Longrightarrow> cellsOK (cells r) \<Longrightarrow> 0 \<le> getDemand r"
  using cellsOK_nth[of "cells r" "length (cells r) - 1"]
  by (simp add: getDemand_def WAVE_SPEED_def MAX_CARS_PER_CELL_def)

lemma getSupply_nonneg: "0 \<le> getSupply r"
  by (simp add: getSupply_def)

lemma cellsOK_update:
  "cellsOK cs \<Longrightarrow> 0 \<le> x \<Longrightarrow> x \<le> MAX_CARS_PER_CELL \<Longrightarrow> cellsOK (cs[i := x])"
  unfolding cellsOK_def list_all_iff using set_update_subset_insert[of cs i x] by auto

lemma spawnLoop_ok:
  assumes "list_all (\<lambda>r. cells r \<noteq> [] \<and> cellsOK (cells r)) rs"
  shows "list_all (\<lambda>r. cells r \<noteq> [] \<and> cellsOK (cells r)) (fst (spawnLoop ns rate rnd rs pos))"
  using assms
proof (induction rs arbitrary: pos)
  case Nil
  then show ?case by simp
next
  case (Cons r rs)
  have r: "cells r \<noteq> []" "cellsOK (cells r)" using Cons.prems by simp_all
  have rest: "list_all (\<lambda>r. cells r \<noteq> [] \<and> cellsOK (cells r)) (fst (spawnLoop ns rate rnd rs p))"
    for p using Cons by simp
  have spawn: "cellsOK ((cells r)[0 := cells r ! 0 + 2])" if "cells r ! 0 < 2"
    using cellsOK_update[OF r(2), of "cells r ! 0 + 2" 0] cellsOK_nth[OF r(2), of 0] r(1) that
    by (simp add: MAX_CARS_PER_CELL_def)
  show ?case
    using r rest spawn by (auto split: option.splits)
qed

lemma tickTransfers_valid:
  assumes wf: "wfGrid e" and ok: "densitiesOK e" and t: "t \<in> set (tickTransfers e)"
  shows "src t < length (roads e) \<and> 0 \<le> amount t \<and>
         (\<forall>j. tgt t = Road j \<longrightarrow>
            j < length (roads e) \<and> amount t \<le> getSupply (roads e ! j))"
proof -
  let ?ns = "map (\<lambda>kn. (fst kn, updateSignal (mode e) (roads e) (snd kn))) (intersections e)"
  have "t \<in> set (concat (map (\<lambda>kn. stepFlow (roads e) (snd kn)) ?ns))"
    using t by (simp only: tickTransfers_def collectTransfers_def)
  then obtain kn where kn: "kn \<in> set ?ns" "t \<in> set (stepFlow (roads e) (snd kn))"
    unfolding set_concat by (metis (no_types, lifting) UN_E imageE list.set_map)
  have d: "distinct (map fst ?ns)" using wf by (simp add: wfGrid_def comp_def)
  have look: "map_of ?ns (fst kn) = Some (snd kn)" using alist_entry[OF d kn(1)] .
  note keep = signals_keep_slots[of "updateSignal (mode e) (roads e)", OF updateSignal_slots(1,2)]
  have ib: "inBelow (length (roads e)) ?ns" using keep(1) wf by (simp add: wfGrid_def)
  have ob: "outBelow (length (roads e)) ?ns" using keep(2) wf by (simp add: wfGrid_def)
  from stepFlow_cases[OF kn(2)] obtain d0 where
    c: "inRoads (snd kn) d0 = Some (src t)"
       "(tgt t = EXIT \<and> outRoads (snd kn) (opposite d0) = None \<and>
           amount t = getDemand (roads e ! src t)) \<or>
        (\<exists>j. tgt t = Road j \<and> outRoads (snd kn) (opposite d0) = Some j \<and> 0 < amount t \<and>
           amount t = min (getDemand (roads e ! src t)) (getSupply (roads e ! j)))"
    by blast
  have s: "src t < length (roads e)"
    using ib look c(1) unfolding inBelow_def by blast
  then have "cells (roads e ! src t) \<noteq> [] \<and> cellsOK (cells (roads e ! src t))"
    using ok by (simp add: densitiesOK_def list_all_length)
  then have dem: "0 \<le> getDemand (roads e ! src t)" using getDemand_nonneg by blast
  from c(2) show ?thesis
  proof
    assume "tgt t = EXIT \<and> outRoads (snd kn) (opposite d0) = None \<and>
            amount t = getDemand (roads e ! src t)"
    with s dem show ?thesis by simp
  next
    assume "\<exists>j. tgt t = Road j \<and> outRoads (snd kn) (opposite d0) = Some j \<and> 0 < amount t \<and>
              amount t = min (getDemand (roads e ! src t)) (getSupply (roads e ! j))"
    then obtain j where j: "tgt t = Road j" "outRoads (snd kn) (opposite d0) = Some j"
      "0 < amount t" "amount t = min (getDemand (roads e ! src t)) (getSupply (roads e ! j))"
      by blast
    have "j < length (roads e)" using ob look j(2) unfolding outBelow_def by blast
    with s j show ?thesis by simp
  qed
qed

lemma tickTransfers_distinct:
  assumes wf: "wfGrid e"
  shows "distinct (map src (tickTransfers e))" "distinct (roadTargets (tickTransfers e))"
proof -
  let ?ns = "map (\<lambda>kn. (fst kn, updateSignal (mode e) (roads e) (snd kn))) (intersections e)"
  note keep = signals_keep_slots[of "updateSignal (mode e) (roads e)", OF updateSignal_slots(1,2)]
  have d: "distinct (map fst ?ns)" using wf by (simp add: wfGrid_def comp_def)
  have "inInj ?ns" "outInj ?ns" using keep(3,4) wf by (simp_all add: wfGrid_def)
  then show "distinct (map src (tickTransfers e))" "distinct (roadTargets (tickTransfers e))"
    using distinct_sources_collect[OF d] distinct_targets_collect[OF d]
    by (simp_all add: tickTransfers_def)
qed

lemma same_id_same_road:
  assumes "distinct (map id_road rs)" "i < length rs" "j < length rs"
    "id_road (rs ! j) = id_road (rs ! i)"
  shows "j = i"
  using assms nth_eq_iff_index_eq[of "map id_road rs" j i] by simp

lemma inflow_bounds:
  assumes wf: "wfGrid e" and ok: "densitiesOK e" and i: "i < length (roads e)"
  shows "0 \<le> fst (aggregate (roads e) (tickTransfers e) ((\<lambda>k. 0), (\<lambda>k. 0), thr))
                 (id_road (roads e ! i)) \<and>
         fst (aggregate (roads e) (tickTransfers e) ((\<lambda>k. 0), (\<lambda>k. 0), thr))
                 (id_road (roads e ! i)) \<le> getSupply (roads e ! i)"
proof -
  let ?rs = "roads e" and ?ts = "tickTransfers e"
  have ids: "distinct (map id_road ?rs)" using wf by (simp add: wfGrid_def)
  have same: "intoId ?rs (id_road (?rs ! i)) t = (tgt t = Road i)" if "t \<in> set ?ts" for t
  proof (cases "tgt t")
    case EXIT
    then show ?thesis by (simp add: intoId_def)
  next
    case (Road j)
    then have "j < length ?rs" using tickTransfers_valid[OF wf ok that] by simp
    with Road same_id_same_road[OF ids i this] show ?thesis by (auto simp: intoId_def)
  qed
  have f: "filter (intoId ?rs (id_road (?rs ! i))) ?ts = filter (\<lambda>t. tgt t = Road i) ?ts"
    using same by (intro filter_cong) simp_all
  have len: "length (filter (\<lambda>t. tgt t = Road i) ?ts) \<le> 1"
    using at_most_one_target[OF tickTransfers_distinct(2)[OF wf]] .
  have each: "0 \<le> amount t \<and> amount t \<le> getSupply (?rs ! i)"
    if "t \<in> set (filter (\<lambda>t. tgt t = Road i) ?ts)" for t
    using tickTransfers_valid[OF wf ok, of t] that by simp
  from sum_at_most_one[OF len each getSupply_nonneg]
  show ?thesis by (simp add: aggregate_inflows f)
qed

lemma outflow_nonneg:
  assumes wf: "wfGrid e" and ok: "densitiesOK e"
  shows "0 \<le> fst (snd (aggregate (roads e) (tickTransfers e) ((\<lambda>k. 0), (\<lambda>k. 0), thr))) k"
proof -
  have "0 \<le> sum_list (map amount (filter (\<lambda>t. id_road (roads e ! src t) = k) (tickTransfers e)))"
    using tickTransfers_valid[OF wf ok] by (intro sum_list_nonneg) auto
  then show ?thesis by (simp add: aggregate_outflows)
qed

lemma densitiesOK_step:
  assumes wf: "wfGrid e" and ok: "densitiesOK e"
  shows "densitiesOK (fst (step rnd (e, pos)))"
proof -
  let ?agg = "aggregate (roads e) (tickTransfers e) ((\<lambda>k. 0), (\<lambda>k. 0), totalThroughput e)"
  let ?phys = "\<lambda>r. stepPhysics r (fst ?agg (id_road r)) (fst (snd ?agg) (id_road r))"
  have one: "cells (?phys r) \<noteq> [] \<and> cellsOK (cells (?phys r))" if "r \<in> set (roads e)" for r
  proof -
    from that obtain i where i: "i < length (roads e)" "r = roads e ! i"
      by (metis in_set_conv_nth)
    have r: "cells r \<noteq> []" "cellsOK (cells r)"
      using ok that by (simp_all add: densitiesOK_def list_all_iff)
    have fin: "0 \<le> fst ?agg (id_road r)" "fst ?agg (id_road r) \<le> getSupply r"
      using inflow_bounds[OF wf ok i(1)] i(2) by simp_all
    have fout: "0 \<le> fst (snd ?agg) (id_road r)" using outflow_nonneg[OF wf ok] .
    have "cellsOK (cells (?phys r))"
      using cellsOK_stepPhysics[OF r(2) r(1) fin fout] .
    moreover have "cells (?phys r) \<noteq> []"
      using r(1) by (simp add: cells_stepPhysics ctm_reference_def)
    ultimately show ?thesis by simp
  qed
  have "list_all (\<lambda>r. cells r \<noteq> [] \<and> cellsOK (cells r)) (map ?phys (roads e))"
    using one by (simp add: list_all_iff)
  from spawnLoop_ok[OF this] show ?thesis
    by (simp add: densitiesOK_def step_def Let_def tickTransfers_def)
qed

lemma unstarted_densitiesOK: "unstarted e \<Longrightarrow> densitiesOK e"
  by (auto simp: unstarted_def densitiesOK_def list_all_iff cellsOK_def
      ROAD_LENGTH_CELLS_def MAX_CARS_PER_CELL_def)

lemma densitiesOK_after:
  "wfGrid e \<Longrightarrow> densitiesOK e \<Longrightarrow> densitiesOK (after rnd e pos t)"
  by (induction t) (simp_all add: after_Suc wfGrid_after densitiesOK_step)

section \<open>Order of aggregation\<close>

lemma aggregate_closed:
  "aggregate rs ts (fi, fo, thr) =
     ((\<lambda>k. fi k + sum_list (map amount (filter (intoId rs k) ts))),
      (\<lambda>k. fo k + sum_list (map amount (filter (\<lambda>t. id_road (rs ! src t) = k) ts))),
      thr + sum_list (map amount (filter (\<lambda>t. tgt t = EXIT) ts)))"
proof -
  have "fst (aggregate rs ts (fi, fo, thr)) =
          (\<lambda>k. fi k + sum_list (map amount (filter (intoId rs k) ts)))"
    by (rule ext) (rule aggregate_inflows)
  moreover have "fst (snd (aggregate rs ts (fi, fo, thr))) =
          (\<lambda>k. fo k + sum_list (map amount (filter (\<lambda>t. id_road (rs ! src t) = k) ts)))"
    by (rule ext) (rule aggregate_outflows)
  ultimately show ?thesis
    using aggregate_throughput[of rs ts fi fo thr] by (simp add: prod_eq_iff)
qed

lemma sum_filter_mset:
  fixes f :: "'a \<Rightarrow> real"
  shows "sum_list (map f (filter P xs)) = sum_mset (image_mset f (filter_mset P (mset xs)))"
proof -
  have "sum_list (map f (filter P xs)) = sum_mset (mset (map f (filter P xs)))"
    by (simp only: sum_mset_sum_list)
  then show ?thesis by simp
qed

lemma aggregate_permute:
  assumes "mset ts' = mset ts"
  shows "aggregate rs ts' acc = aggregate rs ts acc"
proof -
  obtain fi fo thr where acc: "acc = (fi, fo, thr)" by (cases acc) auto
  show ?thesis
    unfolding acc aggregate_closed sum_filter_mset assms ..
qed

section \<open>The boundary flag is not read\<close>

lemma eraseFlag_fields [simp]:
  "cells (eraseFlag r) = cells r" "id_road (eraseFlag r) = id_road r"
  "u (eraseFlag r) = u r" "v (eraseFlag r) = v r"
  by (simp_all add: eraseFlag_def)

lemma eraseFlag_reads [simp]:
  "getDemand (eraseFlag r) = getDemand r" "getSupply (eraseFlag r) = getSupply r"
  "getTotalCars (eraseFlag r) = getTotalCars r" "getStoppedQueue (eraseFlag r) = getStoppedQueue r"
  by (simp_all add: getDemand_def getSupply_def getTotalCars_def getStoppedQueue_def)

lemma eraseFlag_stepPhysics: "stepPhysics (eraseFlag r) a b = eraseFlag (stepPhysics r a b)"
  by (simp add: stepPhysics_def eraseFlag_def Let_def)

lemma eraseFlag_isEntry [simp]: "isEntry (eraseFlag r) n = isEntry r n"
  by (simp add: isEntry_def)

lemma eraseFlag_idem [simp]: "eraseFlag (eraseFlag r) = eraseFlag r"
  by (simp add: eraseFlag_def)

lemma erase_pressureBlock:
  "nodeRefsBelow (length rs) n \<Longrightarrow>
   pressureBlock (map eraseFlag rs) n a b p = pressureBlock rs n a b p"
  by (auto simp: pressureBlock_def nodeRefsBelow_def Let_def split: option.splits)

lemma erase_getPressure:
  "nodeRefsBelow (length rs) n \<Longrightarrow> getPressure (map eraseFlag rs) n = getPressure rs n"
  by (simp add: getPressure_def erase_pressureBlock)

lemma nodeRefsBelow_timer [simp]:
  "nodeRefsBelow b (n\<lparr>phaseTimer := t\<rparr>) = nodeRefsBelow b n"
  by (simp add: nodeRefsBelow_def)

lemma erase_updateSignal:
  "nodeRefsBelow (length rs) n \<Longrightarrow> updateSignal m (map eraseFlag rs) n = updateSignal m rs n"
  by (simp add: updateSignal_def erase_getPressure Let_def)

lemma nodeRefsBelow_updateSignal [simp]:
  "nodeRefsBelow b (updateSignal m rs n) = nodeRefsBelow b n"
  by (simp add: nodeRefsBelow_def)

lemma erase_routeOne:
  "nodeRefsBelow (length rs) n \<Longrightarrow> routeOne (map eraseFlag rs) n d = routeOne rs n d"
  by (auto simp: routeOne_def nodeRefsBelow_def split: option.splits)

lemma erase_stepFlow:
  "nodeRefsBelow (length rs) n \<Longrightarrow> stepFlow (map eraseFlag rs) n = stepFlow rs n"
  by (simp add: stepFlow_routeFlow_spec routeFlow_spec_def erase_routeOne)

lemma erase_collectTransfers:
  "\<forall>kn\<in>set ns. nodeRefsBelow (length rs) (snd kn) \<Longrightarrow>
   collectTransfers (map eraseFlag rs) ns = collectTransfers rs ns"
  by (simp add: collectTransfers_def erase_stepFlow cong: map_cong)

lemma erase_aggregate:
  "\<forall>t\<in>set ts. src t < length rs \<and> (\<forall>j. tgt t = Road j \<longrightarrow> j < length rs) \<Longrightarrow>
   aggregate (map eraseFlag rs) ts acc = aggregate rs ts acc"
proof (induction ts arbitrary: acc)
  case Nil
  then show ?case by simp
next
  case (Cons t ts)
  obtain fi fo thr where acc: "acc = (fi, fo, thr)" by (cases acc) auto
  show ?case
    using Cons unfolding acc by (auto simp: Let_def split: target.splits)
qed

lemma eraseFlag_cells_update:
  "(eraseFlag r)\<lparr>cells := c\<rparr> = eraseFlag (r\<lparr>cells := c\<rparr>)"
  by (simp add: eraseFlag_def)

lemma erase_spawnLoop:
  "spawnLoop ns rate rnd (map eraseFlag rs) pos =
     (map eraseFlag (fst (spawnLoop ns rate rnd rs pos)), snd (spawnLoop ns rate rnd rs pos))"
  by (induction rs arbitrary: pos) (auto simp: eraseFlag_cells_update split: option.splits)

lemma wfGrid_nodeRefs:
  assumes "wfGrid e" "kn \<in> set (intersections e)"
  shows "nodeRefsBelow (length (roads e)) (snd kn)"
proof -
  have "map_of (intersections e) (fst kn) = Some (snd kn)"
    using alist_entry assms by (simp add: wfGrid_def)
  then show ?thesis
    using assms(1) unfolding wfGrid_def inBelow_def outBelow_def nodeRefsBelow_def by blast
qed

lemma wfGrid_eraseBoundary: "wfGrid (eraseBoundary e) = wfGrid e"
  by (simp add: wfGrid_def eraseBoundary_def comp_def)

lemma step_eraseBoundary:
  assumes wf: "wfGrid e"
  shows "step rnd (eraseBoundary e, pos) =
           (eraseBoundary (fst (step rnd (e, pos))), snd (step rnd (e, pos)))"
proof -
  let ?rs = "roads e" and ?ers = "map eraseFlag (roads e)"
  let ?ns = "map (\<lambda>kn. (fst kn, updateSignal (mode e) ?rs (snd kn))) (intersections e)"
  let ?ens = "map (\<lambda>kn. (fst kn, updateSignal (mode e) ?ers (snd kn))) (intersections e)"
  have refs: "\<forall>kn\<in>set (intersections e). nodeRefsBelow (length ?rs) (snd kn)"
    using wfGrid_nodeRefs[OF wf] by blast
  have ns: "?ens = ?ns"
    using refs by (intro map_cong) (simp_all add: erase_updateSignal)
  have refs': "\<forall>kn\<in>set ?ns. nodeRefsBelow (length ?rs) (snd kn)"
    using refs by auto
  have ts: "collectTransfers ?ers ?ns = collectTransfers ?rs ?ns"
    using erase_collectTransfers[OF refs'] .
  have valid: "\<forall>t\<in>set (collectTransfers ?rs ?ns).
                 src t < length ?rs \<and> (\<forall>j. tgt t = Road j \<longrightarrow> j < length ?rs)"
  proof
    fix t assume "t \<in> set (collectTransfers ?rs ?ns)"
    then obtain kn where kn: "kn \<in> set ?ns" "t \<in> set (stepFlow ?rs (snd kn))"
      unfolding collectTransfers_def set_concat
      by (metis (no_types, lifting) UN_E imageE list.set_map)
    from refs' kn(1) have b: "nodeRefsBelow (length ?rs) (snd kn)" by blast
    from stepFlow_cases[OF kn(2)] b
    show "src t < length ?rs \<and> (\<forall>j. tgt t = Road j \<longrightarrow> j < length ?rs)"
      unfolding nodeRefsBelow_def by (metis target.inject target.distinct(1))
  qed
  have agg: "aggregate ?ers (collectTransfers ?rs ?ns) acc =
             aggregate ?rs (collectTransfers ?rs ?ns) acc" for acc
    using erase_aggregate[OF valid] .
  let ?agg = "aggregate ?rs (collectTransfers ?rs ?ns) ((\<lambda>k. 0), (\<lambda>k. 0), totalThroughput e)"
  let ?phys = "\<lambda>r. stepPhysics r (fst ?agg (id_road r)) (fst (snd ?agg) (id_road r))"
  let ?spE = "spawnLoop ?ns (inflowRate e) rnd (map ?phys ?ers) pos"
  let ?sp = "spawnLoop ?ns (inflowRate e) rnd (map ?phys ?rs) pos"
  have lhs: "step rnd (eraseBoundary e, pos) =
      ((eraseBoundary e)\<lparr>roads := fst ?spE, intersections := ?ns,
          totalThroughput := snd (snd ?agg), stepCount := stepCount e + 1\<rparr>, snd ?spE)"
    by (simp add: step_def Let_def eraseBoundary_def ns ts agg)
  have m: "map ?phys ?ers = map eraseFlag (map ?phys ?rs)"
    by (simp add: eraseFlag_stepPhysics)
  have spE: "?spE = (map eraseFlag (fst ?sp), snd ?sp)"
    unfolding m by (rule erase_spawnLoop)
  have rhs: "(eraseBoundary (fst (step rnd (e, pos))), snd (step rnd (e, pos))) =
      (e\<lparr>roads := map eraseFlag (fst ?sp), intersections := ?ns,
          totalThroughput := snd (snd ?agg), stepCount := stepCount e + 1\<rparr>, snd ?sp)"
    by (simp add: step_def Let_def eraseBoundary_def)
  show ?thesis
    unfolding lhs spE rhs by (simp add: eraseBoundary_def)
qed

lemma steps_eraseBoundary:
  assumes wf: "wfGrid e"
  shows "steps rnd t (eraseBoundary e, pos) =
           (eraseBoundary (fst (steps rnd t (e, pos))), snd (steps rnd t (e, pos)))"
proof (induction t)
  case 0
  then show ?case by simp
next
  case (Suc t)
  have "wfGrid (fst (steps rnd t (e, pos)))"
    using wfGrid_after[OF wf, of rnd pos t] by (simp add: after_def)
  from step_eraseBoundary[OF this, of rnd "snd (steps rnd t (e, pos))"] Suc
  show ?case by simp
qed

lemma eraseBoundary_idem: "eraseBoundary (eraseBoundary e) = eraseBoundary e"
  by (simp add: eraseBoundary_def comp_def)

lemma getSnapshot_flags:
  "map isBoundary_data (roads_snap (getSnapshot e)) = map isBoundary (roads e)"
  by (simp add: getSnapshot_def Let_def comp_def)

section \<open>Claims about a single road\<close>

text \<open>
  C2 (as stated, refuted). The claim: for any inflow and outflow that are not negative,
  one call of \<open>stepPhysics\<close> changes the total density by inflow minus outflow. On a freshly
  built, empty road an outflow of 1 cannot be taken out: the last cell is floored at 0 and
  the total stays 0.
\<close>

theorem stepPhysics_conservation_counterexample:
  "getTotalCars (new_DirectedRoad ''R_E_0_0'' ''0-0'' ''0-1'' True) + 0 - 1 \<noteq>
   getTotalCars (stepPhysics (new_DirectedRoad ''R_E_0_0'' ''0-0'' ''0-1'' True) 0 1)"
proof -
  let ?r = "new_DirectedRoad ''R_E_0_0'' ''0-0'' ''0-1'' True"
  have ne: "cells ?r \<noteq> []"
    by (simp add: new_DirectedRoad_def ROAD_LENGTH_CELLS_def)
  have "getTotalCars ?r = 0"
    by (simp add: getTotalCars_sum new_DirectedRoad_def sum_list_replicate)
  moreover have "cells ?r ! (length (cells ?r) - 1) = 0"
    by (simp add: new_DirectedRoad_def ROAD_LENGTH_CELLS_def)
  ultimately have "getTotalCars (stepPhysics ?r 0 1) = 0"
    using total_stepPhysics[OF ne, of 0 1] by simp
  then show ?thesis
    using \<open>getTotalCars ?r = 0\<close> by simp
qed

text \<open>
  C2 (amended). For a road with at least one cell, one call of \<open>stepPhysics\<close> changes the
  total density by the inflow minus the smaller of the outflow and the density of the
  last cell; so by exactly inflow minus outflow whenever the outflow does not exceed the
  density of the last cell.
\<close>

theorem stepPhysics_conservation:
  "cells r \<noteq> [] \<longrightarrow>
     getTotalCars (stepPhysics r flowIn flowOut) =
       getTotalCars r + flowIn - min flowOut (cells r ! (length (cells r) - 1)) \<and>
     (flowOut \<le> cells r ! (length (cells r) - 1) \<longrightarrow>
        getTotalCars r + flowIn - flowOut = getTotalCars (stepPhysics r flowIn flowOut))"
  by (simp add: total_stepPhysics)

theorem stepPhysics_conservation_witness:
  "cells \<lparr>id_road = ''R_E_0_0'', u = ''0-0'', v = ''0-1'', cells = [1, 2, 3], isBoundary = False\<rparr> \<noteq> [] \<and>
   (2::real) \<le> [1, 2, 3] ! (length [1, 2, 3::real] - 1) \<and>
   getTotalCars (stepPhysics
      \<lparr>id_road = ''R_E_0_0'', u = ''0-0'', v = ''0-1'', cells = [1, 2, 3], isBoundary = False\<rparr> 1 2) = 5"
  using stepPhysics_conservation
    [of "\<lparr>id_road = ''R_E_0_0'', u = ''0-0'', v = ''0-1'', cells = [1, 2, 3], isBoundary = False\<rparr>" 1 2]
  by (simp add: getTotalCars_def)

text \<open>
  C3. \<open>stepPhysics\<close> computes every flux from the frozen array that the two boundary
  assignments leave: its result is the simultaneous update \<open>ctm_reference\<close> of that array,
  and running the loop body over the adjacent pairs in any order, each pair once, gives
  the same cells.
\<close>

theorem stepPhysics_simultaneous:
  "cells (stepPhysics r flowIn flowOut) = ctm_reference (boundaryUpdate (cells r) flowIn flowOut) \<and>
   (\<forall>is. distinct is \<and> set is = {0..<length (cells r) - 1} \<longrightarrow>
      ctmPairs (boundaryUpdate (cells r) flowIn flowOut) is
               (boundaryUpdate (cells r) flowIn flowOut) =
        cells (stepPhysics r flowIn flowOut))"
  by (simp add: cells_stepPhysics ctmPairs_reference)

theorem stepPhysics_simultaneous_witness:
  "distinct [1, 0::nat] \<and> set [1, 0::nat] = {0..<length [3, 0, 5::real] - 1} \<and>
   ctmPairs (boundaryUpdate [3, 0, 5] 1 2) [1, 0] (boundaryUpdate [3, 0, 5] 1 2) = [0, 4, 3] \<and>
   cells (stepPhysics
      \<lparr>id_road = ''R_E_0_0'', u = ''0-0'', v = ''0-1'', cells = [3, 0, 5], isBoundary = False\<rparr> 1 2)
     = [0, 4, 3]"
proof -
  let ?r = "\<lparr>id_road = ''R_E_0_0'', u = ''0-0'', v = ''0-1'', cells = [3, 0, 5], isBoundary = False\<rparr>"
  have d: "distinct [1, 0::nat] \<and> set [1, 0::nat] = {0..<length [3, 0, 5::real] - 1}"
    by auto
  have c: "ctmPairs (boundaryUpdate [3, 0, 5] 1 2) [1, 0] (boundaryUpdate [3, 0, 5] 1 2) = [0, 4, 3]"
    by (simp add: boundaryUpdate_def Let_def pairFlux_def MAX_CARS_PER_CELL_def)
  have "\<forall>is. distinct is \<and> set is = {0..<length (cells ?r) - 1} \<longrightarrow>
          ctmPairs (boundaryUpdate (cells ?r) 1 2) is (boundaryUpdate (cells ?r) 1 2) =
            cells (stepPhysics ?r 1 2)"
    using stepPhysics_simultaneous[of ?r 1 2] by (rule conjunct2)
  from this[rule_format, of "[1, 0]"] d
  have "ctmPairs (boundaryUpdate [3, 0, 5] 1 2) [1, 0] (boundaryUpdate [3, 0, 5] 1 2) =
        cells (stepPhysics ?r 1 2)"
    by simp
  with c d show ?thesis by simp
qed

section \<open>Claims about a single intersection\<close>

text \<open>
  C4. \<open>stepFlow\<close> routes each incoming road of the green axis straight through: it is the
  list \<open>routeFlow_spec\<close>, in which a road without an opposite outgoing road sends its whole
  demand to the exit, and any other road sends the minimum of its demand and the supply
  of the opposite road, when that is positive. In scenario C exactly one transfer is
  made, of 7 units, and applying it empties the upstream road and leaves 7 units in the
  downstream road.
\<close>

theorem stepFlow_routes_straight:
  "stepFlow rs node = routeFlow_spec rs node \<and>
   stepFlow scenarioC_roads scenarioC_node = [\<lparr>src = 0, tgt = Road 1, amount = 7\<rparr>] \<and>
   getTotalCars (stepPhysics (scenarioC_roads ! 0) 0 7) = 0 \<and>
   getTotalCars (stepPhysics (scenarioC_roads ! 1) 7 0) = 7"
proof -
  have a: "stepFlow scenarioC_roads scenarioC_node = [\<lparr>src = 0, tgt = Road 1, amount = 7\<rparr>]"
    by (simp add: stepFlow_def allowedDirs_def scenarioC_roads_def scenarioC_node_def
        new_Intersection_def new_DirectedRoad_def getDemand_def getSupply_def
        WAVE_SPEED_def MAX_CARS_PER_CELL_def ROAD_LENGTH_CELLS_def)
  have r0: "cells (scenarioC_roads ! 0) = [0, 0, 0, 0, 0, 0, 0, 0, 0, 7]"
    by (simp add: scenarioC_roads_def)
  have r1: "cells (scenarioC_roads ! Suc 0) = [0, 0, 0, 0, 0, 0, 0, 0, 0, 0]"
    by (simp add: scenarioC_roads_def new_DirectedRoad_def ROAD_LENGTH_CELLS_def
        numeral_eq_Suc)
  have b: "getTotalCars (stepPhysics (scenarioC_roads ! 0) 0 7) = 0"
    using total_stepPhysics[of "scenarioC_roads ! 0" 0 7]
    by (simp add: r0 getTotalCars_sum)
  have c: "getTotalCars (stepPhysics (scenarioC_roads ! 1) 7 0) = 7"
    using total_stepPhysics[of "scenarioC_roads ! 1" 7 0]
    by (simp add: r1 getTotalCars_sum)
  show ?thesis using a b c by (simp add: stepFlow_routeFlow_spec)
qed

theorem stepFlow_routes_straight_witness:
  "routeFlow_spec scenarioC_roads scenarioC_node = [\<lparr>src = 0, tgt = Road 1, amount = 7\<rparr>]"
proof -
  have "stepFlow scenarioC_roads scenarioC_node = routeFlow_spec scenarioC_roads scenarioC_node"
    using stepFlow_routes_straight[of scenarioC_roads scenarioC_node] by (rule conjunct1)
  moreover have "stepFlow scenarioC_roads scenarioC_node = [\<lparr>src = 0, tgt = Road 1, amount = 7\<rparr>]"
    using stepFlow_routes_straight[of scenarioC_roads scenarioC_node] by blast
  ultimately show ?thesis by simp
qed

text \<open>
  C7 (as stated, refuted). The claim subtracts half the total of every opposing outgoing
  road that exists. At an intersection of the top edge the road coming from the north is
  missing and the road going south exists; with 5 queued units coming from the south and
  4 units on the road going south, the code returns 5 for the north-south axis, the
  claimed formula 3.
\<close>

theorem getPressure_counterexample:
  "getPressure pressureEdge_roads pressureEdge_node = (5, 0.1) \<and>
   pressure_spec pressureEdge_roads pressureEdge_node = (3, 0.1)"
  by (simp add: getPressure_def pressure_spec_def pressureBlock_def queuedOf_def totalOf_def
      pressureEdge_roads_def pressureEdge_node_def new_Intersection_def
      getStoppedQueue_def getTotalCars_def)

text \<open>
  C7 (amended). \<open>getPressure\<close> returns, for each axis, the larger of 0.1 and the sum of the
  pressures of the two movements of the axis; a movement whose incoming road is missing
  contributes nothing, not even the load of its outgoing road, and a movement whose
  incoming road exists contributes the queued load of that road minus half the total of
  the opposite outgoing road, if there is one. Both components are at least 0.1.
\<close>

theorem getPressure_movements:
  "getPressure rs node =
     (max 0.1 (movementPressure rs node N S + movementPressure rs node S N),
      max 0.1 (movementPressure rs node E W + movementPressure rs node W E)) \<and>
   0.1 \<le> fst (getPressure rs node) \<and> 0.1 \<le> snd (getPressure rs node)"
  by (simp add: getPressure_movement)

theorem getPressure_movements_witness:
  "getPressure pressureEdge_roads pressureEdge_node =
     (max 0.1 (movementPressure pressureEdge_roads pressureEdge_node N S
               + movementPressure pressureEdge_roads pressureEdge_node S N),
      max 0.1 (movementPressure pressureEdge_roads pressureEdge_node E W
               + movementPressure pressureEdge_roads pressureEdge_node W E)) \<and>
   movementPressure pressureEdge_roads pressureEdge_node N S = 0 \<and>
   movementPressure pressureEdge_roads pressureEdge_node S N = 5"
  using getPressure_movements[of pressureEdge_roads pressureEdge_node]
  by (simp add: movementPressure_def pressureEdge_roads_def pressureEdge_node_def
      new_Intersection_def getStoppedQueue_def totalOf_def)

section \<open>Claims about the engine\<close>

lemma showNat_0: "showNat 0 = ''0''"
  by code_simp

lemma showNat_1: "showNat (Suc 0) = ''1''"
  by code_simp

lemma upt_0_2: "[0..<2] = [0, Suc 0]"
  by code_simp

lemma new_grid12: "new_SimulationEngine 1 2 rate m = Inr (grid12 rate m)"
  by (simp add: new_SimulationEngine_def buildGrid_def gridCells_def createIntersection_def
      connectRoads_def connectPair_def nodeId_def roadId_def showNat_0 showNat_1 Let_def
      setOut_def setIn_def grid12_def new_Intersection_def upt_0_2)

lemma constructed_wf:
  assumes "new_SimulationEngine rws cls rate m = Inr e0"
  shows "wfGrid e0" "unstarted e0" "mode e0 = m" "rows e0 = rws" "cols e0 = cls"
    "length (intersections e0) = nat rws * nat cls"
proof -
  from constructor_ok[of rws cls rate m] assms
  have e: "wfGrid e0 \<and> unstarted e0 \<and> rows e0 = rws \<and> cols e0 = cls \<and> mode e0 = m \<and>
           map fst (intersections e0) = map (\<lambda>rc. nodeId (fst rc) (snd rc)) (gridCells e0)"
    by auto
  then show "wfGrid e0" "unstarted e0" "mode e0 = m" "rows e0 = rws" "cols e0 = cls"
    by simp_all
  have "length (intersections e0) = length (gridCells e0)"
    using e by (metis length_map)
  then show "length (intersections e0) = nat rws * nat cls"
    using e by (simp only: length_gridCells)
qed

lemma constructed_node:
  assumes "new_SimulationEngine rws cls rate m = Inr e0" "j < length (intersections e0)"
  shows "phase (nodeAt e0 j) = 0 \<and> phaseTimer (nodeAt e0 j) = 0"
proof -
  have d: "distinct (map fst (intersections e0))"
    using constructed_wf(1)[OF assms(1)] by (simp add: wfGrid_def)
  have "intersections e0 ! j \<in> set (intersections e0)" using assms(2) by simp
  from alist_entry[OF d this] constructed_wf(2)[OF assms(1)]
  show ?thesis unfolding unstarted_def nodesQuiet_def nodeAt_def by blast
qed

lemma densitiesOK_cells:
  "densitiesOK e \<Longrightarrow> r \<in> set (roads e) \<Longrightarrow> c \<in> set (cells r) \<Longrightarrow>
   0 \<le> c \<and> c \<le> MAX_CARS_PER_CELL"
  by (simp add: densitiesOK_def cellsOK_def list_all_iff)

text \<open>
  C1. Whatever the parameters of the constructor, the random draws and the number of
  ticks, every cell density of every road of the engine lies between 0 and
  \<open>MAX_CARS_PER_CELL\<close>. For a single road, \<open>stepPhysics\<close> keeps the densities within these
  bounds whenever the inflow is between 0 and the supply of the road and the outflow is
  not negative.
\<close>

theorem densities_within_bounds:
  "(new_SimulationEngine rws cls rate m = Inr e0 \<longrightarrow>
      (\<forall>r\<in>set (roads (after rnd e0 pos t)). \<forall>c\<in>set (cells r).
         0 \<le> c \<and> c \<le> MAX_CARS_PER_CELL)) \<and>
   (cells r \<noteq> [] \<and> (\<forall>c\<in>set (cells r). 0 \<le> c \<and> c \<le> MAX_CARS_PER_CELL) \<and>
    0 \<le> flowIn \<and> flowIn \<le> getSupply r \<and> 0 \<le> flowOut \<longrightarrow>
      (\<forall>c\<in>set (cells (stepPhysics r flowIn flowOut)). 0 \<le> c \<and> c \<le> MAX_CARS_PER_CELL))"
proof (intro conjI impI)
  assume n: "new_SimulationEngine rws cls rate m = Inr e0"
  have "densitiesOK (after rnd e0 pos t)"
    using densitiesOK_after[OF constructed_wf(1)[OF n]
        unstarted_densitiesOK[OF constructed_wf(2)[OF n]]] .
  then show "\<forall>r\<in>set (roads (after rnd e0 pos t)). \<forall>c\<in>set (cells r).
         0 \<le> c \<and> c \<le> MAX_CARS_PER_CELL"
    using densitiesOK_cells by blast
next
  assume a: "cells r \<noteq> [] \<and> (\<forall>c\<in>set (cells r). 0 \<le> c \<and> c \<le> MAX_CARS_PER_CELL) \<and>
    0 \<le> flowIn \<and> flowIn \<le> getSupply r \<and> 0 \<le> flowOut"
  then have "cellsOK (cells r)" by (simp add: cellsOK_def list_all_iff)
  with a have "cellsOK (cells (stepPhysics r flowIn flowOut))"
    by (intro cellsOK_stepPhysics) simp_all
  then show "\<forall>c\<in>set (cells (stepPhysics r flowIn flowOut)). 0 \<le> c \<and> c \<le> MAX_CARS_PER_CELL"
    by (simp add: cellsOK_def list_all_iff)
qed

theorem densities_within_bounds_witness:
  "new_SimulationEngine 1 2 (7 / 20) SMART = Inr (grid12 (7 / 20) SMART) \<and>
   list_all (\<lambda>r. list_all (\<lambda>c. 0 \<le> c \<and> c \<le> MAX_CARS_PER_CELL) (cells r))
     (roads (after (\<lambda>k. 1 / 10) (grid12 (7 / 20) SMART) 0 50)) \<and>
   list_all (\<lambda>c. 0 \<le> c \<and> c \<le> MAX_CARS_PER_CELL)
     (cells (stepPhysics
        \<lparr>id_road = ''R_E_0_0'', u = ''0-0'', v = ''0-1'', cells = [5, 7, 0], isBoundary = True\<rparr>
        2 9))"
proof -
  let ?r = "\<lparr>id_road = ''R_E_0_0'', u = ''0-0'', v = ''0-1'', cells = [5, 7, 0], isBoundary = True\<rparr>"
  note th = densities_within_bounds[of 1 2 "7 / 20" SMART "grid12 (7 / 20) SMART"
      "\<lambda>k. 1 / 10" 0 50 ?r 2 9]
  have pre: "cells ?r \<noteq> [] \<and> (\<forall>c\<in>set (cells ?r). 0 \<le> c \<and> c \<le> MAX_CARS_PER_CELL) \<and>
    0 \<le> (2::real) \<and> 2 \<le> getSupply ?r \<and> 0 \<le> (9::real)"
    by (simp add: MAX_CARS_PER_CELL_def getSupply_def)
  have 1: "\<forall>r\<in>set (roads (after (\<lambda>k. 1 / 10) (grid12 (7 / 20) SMART) 0 50)).
             \<forall>c\<in>set (cells r). 0 \<le> c \<and> c \<le> MAX_CARS_PER_CELL"
    using th[THEN conjunct1, THEN mp, OF new_grid12] .
  have 2: "\<forall>c\<in>set (cells (stepPhysics ?r 2 9)). 0 \<le> c \<and> c \<le> MAX_CARS_PER_CELL"
    using th[THEN conjunct2, THEN mp, OF pre] .
  show ?thesis
    unfolding list_all_iff by (intro conjI new_grid12 1 2)
qed

text \<open>
  C8 (as stated, refuted). The constructor checks nothing: with 0 rows, with -1 columns
  and with an entry probability of 3/2 it returns an engine.
\<close>

theorem constructor_validation_counterexample:
  "new_SimulationEngine 0 3 (1 / 2) FIXED =
     Inr \<lparr>roads = [], intersections = [], totalThroughput = 0, stepCount = 0,
          mode = FIXED, rows = 0, cols = 3, inflowRate = 1 / 2\<rparr> \<and>
   new_SimulationEngine 3 (- 1) (1 / 2) FIXED =
     Inr \<lparr>roads = [], intersections = [], totalThroughput = 0, stepCount = 0,
          mode = FIXED, rows = 3, cols = - 1, inflowRate = 1 / 2\<rparr> \<and>
   new_SimulationEngine 1 1 (3 / 2) SMART =
     Inr \<lparr>roads = [], intersections = [(''0-0'', new_Intersection ''0-0'' 0 0)],
          totalThroughput = 0, stepCount = 0,
          mode = SMART, rows = 1, cols = 1, inflowRate = 3 / 2\<rparr>"
  by (simp add: new_SimulationEngine_def buildGrid_def gridCells_def product_Nil_right
      createIntersection_def connectRoads_def nodeId_def showNat_0 Let_def)

text \<open>
  C8 (amended). The constructor never fails and validates nothing: for any rows, columns,
  entry probability and mode it returns an engine that stores the four parameters as
  given and has one intersection for every cell of the grid; with rows or columns at most
  0 the engine has no road and no intersection.
\<close>

theorem constructor_total:
  "\<exists>e. new_SimulationEngine rws cls rate m = Inr e \<and>
        rows e = rws \<and> cols e = cls \<and> inflowRate e = rate \<and> mode e = m \<and>
        length (intersections e) = nat rws * nat cls \<and>
        (rws \<le> 0 \<or> cls \<le> 0 \<longrightarrow> roads e = [] \<and> intersections e = [])"
proof -
  from constructor_ok[of rws cls rate m] obtain e where
    e: "new_SimulationEngine rws cls rate m = Inr e" "rows e = rws" "cols e = cls"
       "inflowRate e = rate" "mode e = m"
       "rws \<le> 0 \<or> cls \<le> 0 \<longrightarrow> roads e = [] \<and> intersections e = []"
    by blast
  show ?thesis
    by (rule exI[of _ e]) (intro conjI e constructed_wf(6)[OF e(1)])
qed

theorem constructor_total_witness:
  "\<exists>e. new_SimulationEngine 0 3 (3 / 2) FIXED = Inr e \<and>
        rows e = 0 \<and> cols e = 3 \<and> inflowRate e = 3 / 2 \<and> mode e = FIXED \<and>
        roads e = [] \<and> intersections e = []"
  using constructor_total[of 0 3 "3 / 2" FIXED] by auto

text \<open>
  C9. In every tick of an engine built by the constructor, no road is the source of two
  transfers of the collected list and no road is the destination of two; and summing the
  transfers in any other order gives the same inflows, outflows and throughput.
\<close>

theorem transfers_once_per_road:
  "new_SimulationEngine rws cls rate m = Inr e0 \<longrightarrow>
     distinct (map src (tickTransfers (after rnd e0 pos t))) \<and>
     distinct (roadTargets (tickTransfers (after rnd e0 pos t))) \<and>
     (\<forall>ts' acc. mset ts' = mset (tickTransfers (after rnd e0 pos t)) \<longrightarrow>
        aggregate (roads (after rnd e0 pos t)) ts' acc =
        aggregate (roads (after rnd e0 pos t)) (tickTransfers (after rnd e0 pos t)) acc)"
proof
  assume n: "new_SimulationEngine rws cls rate m = Inr e0"
  have wf: "wfGrid (after rnd e0 pos t)"
    using wfGrid_after[OF constructed_wf(1)[OF n]] .
  show "distinct (map src (tickTransfers (after rnd e0 pos t))) \<and>
     distinct (roadTargets (tickTransfers (after rnd e0 pos t))) \<and>
     (\<forall>ts' acc. mset ts' = mset (tickTransfers (after rnd e0 pos t)) \<longrightarrow>
        aggregate (roads (after rnd e0 pos t)) ts' acc =
        aggregate (roads (after rnd e0 pos t)) (tickTransfers (after rnd e0 pos t)) acc)"
    by (intro conjI allI impI tickTransfers_distinct[OF wf] aggregate_permute)
qed

theorem transfers_once_per_road_witness:
  "new_SimulationEngine 1 2 (7 / 20) SMART = Inr (grid12 (7 / 20) SMART) \<and>
   distinct (map src (tickTransfers (after (\<lambda>k. 1 / 10) (grid12 (7 / 20) SMART) 0 50))) \<and>
   distinct (roadTargets (tickTransfers (after (\<lambda>k. 1 / 10) (grid12 (7 / 20) SMART) 0 50))) \<and>
   aggregate (roads (after (\<lambda>k. 1 / 10) (grid12 (7 / 20) SMART) 0 50))
     (rev (tickTransfers (after (\<lambda>k. 1 / 10) (grid12 (7 / 20) SMART) 0 50)))
     ((\<lambda>k. 0), (\<lambda>k. 0), 0) =
   aggregate (roads (after (\<lambda>k. 1 / 10) (grid12 (7 / 20) SMART) 0 50))
     (tickTransfers (after (\<lambda>k. 1 / 10) (grid12 (7 / 20) SMART) 0 50))
     ((\<lambda>k. 0), (\<lambda>k. 0), 0)"
proof -
  let ?e = "after (\<lambda>k. 1 / 10) (grid12 (7 / 20) SMART) 0 50"
  note th = transfers_once_per_road[of 1 2 "7 / 20" SMART "grid12 (7 / 20) SMART"
      "\<lambda>k. 1 / 10" 0 50]
  have a: "distinct (map src (tickTransfers ?e)) \<and> distinct (roadTargets (tickTransfers ?e)) \<and>
     (\<forall>ts' acc. mset ts' = mset (tickTransfers ?e) \<longrightarrow>
        aggregate (roads ?e) ts' acc = aggregate (roads ?e) (tickTransfers ?e) acc)"
    using th[THEN mp, OF new_grid12] .
  have b: "mset (rev (tickTransfers ?e)) = mset (tickTransfers ?e)"
    by simp
  have c: "aggregate (roads ?e) (rev (tickTransfers ?e)) ((\<lambda>k. 0), (\<lambda>k. 0), 0) =
             aggregate (roads ?e) (tickTransfers ?e) ((\<lambda>k. 0), (\<lambda>k. 0), 0)"
    using a[THEN conjunct2, THEN conjunct2, rule_format, OF b] .
  show ?thesis
    by (intro conjI new_grid12 a[THEN conjunct1] a[THEN conjunct2, THEN conjunct1] c)
qed

text \<open>
  C5. In fixed-cycle mode the signal of an intersection depends on nothing but its own
  timer and phase: whatever the roads hold and whatever is drawn, after \<open>k\<close> ticks the timer
  of a signal that started at \<open>t0 < FIXED_CYCLE_STEPS\<close> is \<open>(t0 + k) mod FIXED_CYCLE_STEPS\<close>
  and its phase has flipped \<open>(t0 + k) div FIXED_CYCLE_STEPS\<close> times, so it flips exactly
  at the ticks where the timer returns to 0. On the engine built for a 2 by 2 grid
  (initial phase NS, cycle length 6) all four intersections are in phase EW at tick 6.
\<close>

theorem fixed_cycle_flips:
  "(mode e = FIXED \<and> j < length (intersections e) \<and>
    phaseTimer (nodeAt e j) < FIXED_CYCLE_STEPS \<longrightarrow>
      phaseTimer (nodeAt (after rnd e pos k) j) =
        (phaseTimer (nodeAt e j) + k) mod FIXED_CYCLE_STEPS \<and>
      phase (nodeAt (after rnd e pos k) j) =
        (if even ((phaseTimer (nodeAt e j) + k) div FIXED_CYCLE_STEPS)
         then phase (nodeAt e j) else 1 - phase (nodeAt e j))) \<and>
   (new_SimulationEngine 2 2 rate FIXED = Inr e0 \<longrightarrow>
      map (\<lambda>kn. phase (snd kn)) (intersections (after rnd e0 pos 6)) = [1, 1, 1, 1])"
proof (intro conjI impI)
  assume "mode e = FIXED \<and> j < length (intersections e) \<and>
    phaseTimer (nodeAt e j) < FIXED_CYCLE_STEPS"
  then show "phaseTimer (nodeAt (after rnd e pos k) j) =
        (phaseTimer (nodeAt e j) + k) mod FIXED_CYCLE_STEPS"
    and "phase (nodeAt (after rnd e pos k) j) =
        (if even ((phaseTimer (nodeAt e j) + k) div FIXED_CYCLE_STEPS)
         then phase (nodeAt e j) else 1 - phase (nodeAt e j))"
    using fixed_cycle_run[of e j rnd pos k] by simp_all
next
  assume n: "new_SimulationEngine 2 2 rate FIXED = Inr e0"
  have len: "length (intersections e0) = 4"
    using constructed_wf(6)[OF n] by simp
  have m: "mode e0 = FIXED" using constructed_wf(3)[OF n] .
  have each: "phase (nodeAt (after rnd e0 pos 6) i) = 1" if "i < 4" for i
  proof -
    have i: "i < length (intersections e0)" using that len by simp
    from constructed_node[OF n i]
    have z: "phase (nodeAt e0 i) = 0" "phaseTimer (nodeAt e0 i) = 0" by simp_all
    then have "phaseTimer (nodeAt e0 i) < FIXED_CYCLE_STEPS"
      by (simp add: FIXED_CYCLE_STEPS_def)
    from fixed_cycle_run[OF m i this, of rnd pos 6] z
    show ?thesis by (simp add: FIXED_CYCLE_STEPS_def)
  qed
  have "map (\<lambda>kn. phase (snd kn)) (intersections (after rnd e0 pos 6)) = replicate 4 1"
  proof (rule nth_equalityI)
    show "length (map (\<lambda>kn. phase (snd kn)) (intersections (after rnd e0 pos 6))) =
          length (replicate 4 (1::int))"
      using len by simp
  next
    fix i assume "i < length (map (\<lambda>kn. phase (snd kn)) (intersections (after rnd e0 pos 6)))"
    then have i: "i < 4" using len by simp
    then have "i < length (intersections (after rnd e0 pos 6))" using len by simp
    then show "map (\<lambda>kn. phase (snd kn)) (intersections (after rnd e0 pos 6)) ! i =
               replicate 4 1 ! i"
      using each[OF i] i by (simp add: nodeAt_def)
  qed
  then show "map (\<lambda>kn. phase (snd kn)) (intersections (after rnd e0 pos 6)) = [1, 1, 1, 1]"
    by (simp add: numeral_eq_Suc)
qed

theorem fixed_cycle_flips_witness:
  "mode (grid12 0 FIXED) = FIXED \<and> 0 < length (intersections (grid12 0 FIXED)) \<and>
   phaseTimer (nodeAt (grid12 0 FIXED) 0) < FIXED_CYCLE_STEPS \<and>
   phaseTimer (nodeAt (after (\<lambda>k. 0) (grid12 0 FIXED) 0 6) 0) = 0 \<and>
   phase (nodeAt (after (\<lambda>k. 0) (grid12 0 FIXED) 0 6) 0) = 1 \<and>
   phase (nodeAt (after (\<lambda>k. 0) (grid12 0 FIXED) 0 5) 0) = 0 \<and>
   (\<exists>e0. new_SimulationEngine 2 2 0 FIXED = Inr e0 \<and>
      map (\<lambda>kn. phase (snd kn)) (intersections (after (\<lambda>k. 0) e0 0 6)) = [1, 1, 1, 1])"
proof -
  let ?e = "grid12 0 FIXED"
  have pre: "mode ?e = FIXED \<and> 0 < length (intersections ?e) \<and>
             phaseTimer (nodeAt ?e 0) < FIXED_CYCLE_STEPS"
    by (simp add: grid12_def nodeAt_def new_Intersection_def FIXED_CYCLE_STEPS_def)
  have z: "phaseTimer (nodeAt ?e 0) = 0" "phase (nodeAt ?e 0) = 0"
    by (simp_all add: grid12_def nodeAt_def new_Intersection_def)
  have six: "phaseTimer (nodeAt (after (\<lambda>k. 0) ?e 0 6) 0) = 0 \<and>
             phase (nodeAt (after (\<lambda>k. 0) ?e 0 6) 0) = 1"
    using fixed_cycle_flips[of ?e 0 "\<lambda>k. 0" 0 6, THEN conjunct1, THEN mp, OF pre]
    by (simp add: z FIXED_CYCLE_STEPS_def)
  have five: "phase (nodeAt (after (\<lambda>k. 0) ?e 0 5) 0) = 0"
    using fixed_cycle_flips[of ?e 0 "\<lambda>k. 0" 0 5, THEN conjunct1, THEN mp, OF pre]
    by (simp add: z FIXED_CYCLE_STEPS_def)
  from constructor_ok[of 2 2 0 FIXED] obtain e0 where
    e0: "new_SimulationEngine 2 2 0 FIXED = Inr e0" by blast
  have "map (\<lambda>kn. phase (snd kn)) (intersections (after (\<lambda>k. 0) e0 0 6)) = [1, 1, 1, 1]"
    using fixed_cycle_flips[of ?e 0 "\<lambda>k. 0" 0 6 0 e0, THEN conjunct2, THEN mp, OF e0] .
  with e0 have ex: "\<exists>e0. new_SimulationEngine 2 2 0 FIXED = Inr e0 \<and>
      map (\<lambda>kn. phase (snd kn)) (intersections (after (\<lambda>k. 0) e0 0 6)) = [1, 1, 1, 1]"
    by (intro exI[of _ e0] conjI)
  show ?thesis
    using pre six five ex by (intro conjI) simp_all
qed

text \<open>
  C6. In adaptive mode, for the signal of any intersection whose timer is below
  \<open>MAX_RED_STEPS\<close> (as it is in every engine that the constructor builds: the timers start
  at 0), whatever the roads hold and whatever is drawn: the timer stays below
  \<open>MAX_RED_STEPS\<close> after every tick; it is reset to 0 by a tick that changes the phase and
  counts one more after a tick that does not; a tick changes the phase only when the
  timer it reaches is at least \<open>MIN_GREEN_STEPS\<close>; two phase changes are at least
  \<open>MIN_GREEN_STEPS\<close> ticks apart; and any \<open>MAX_RED_STEPS\<close> consecutive ticks contain a phase
  change.
\<close>

theorem adaptive_timing:
  "(mode e = SMART \<and> j < length (intersections e) \<and>
    phaseTimer (nodeAt e j) < MAX_RED_STEPS \<longrightarrow>
      (\<forall>t. phaseTimer (nodeAt (after rnd e pos t) j) < MAX_RED_STEPS) \<and>
      (\<forall>t. phaseChanged rnd e pos j t \<longrightarrow>
         phaseTimer (nodeAt (after rnd e pos (Suc t)) j) = 0 \<and>
         MIN_GREEN_STEPS \<le> phaseTimer (nodeAt (after rnd e pos t) j) + 1) \<and>
      (\<forall>t. \<not> phaseChanged rnd e pos j t \<longrightarrow>
         phaseTimer (nodeAt (after rnd e pos (Suc t)) j) =
           phaseTimer (nodeAt (after rnd e pos t) j) + 1) \<and>
      (\<forall>a b. phaseChanged rnd e pos j a \<and> phaseChanged rnd e pos j b \<and> a < b \<longrightarrow>
         a + MIN_GREEN_STEPS \<le> b) \<and>
      (\<forall>a. \<exists>b. a \<le> b \<and> b < a + MAX_RED_STEPS \<and> phaseChanged rnd e pos j b)) \<and>
   (new_SimulationEngine rws cls rate SMART = Inr e0 \<and> i < length (intersections e0) \<longrightarrow>
      mode e0 = SMART \<and> phaseTimer (nodeAt e0 i) = 0)"
proof (intro conjI impI)
  assume a: "mode e = SMART \<and> j < length (intersections e) \<and>
    phaseTimer (nodeAt e j) < MAX_RED_STEPS"
  define ph where "ph = (\<lambda>t. phase (nodeAt (after rnd e pos t) j))"
  define tm where "tm = (\<lambda>t. phaseTimer (nodeAt (after rnd e pos t) j))"
  have m: "mode e \<noteq> FIXED" using a by simp
  have nxt: "nodeAt (after rnd e pos (Suc t)) j =
      updateSignal (mode e) (roads (after rnd e pos t)) (nodeAt (after rnd e pos t) j)" for t
    using after_nodeAt a by blast
  have keep: "tm (Suc t) = tm t + 1" if "ph (Suc t) = ph t" for t
    using updateSignal_SMART_keep[OF m, of "roads (after rnd e pos t)"
        "nodeAt (after rnd e pos t) j"] that
    unfolding ph_def tm_def nxt by simp
  have change: "tm (Suc t) = 0 \<and> MIN_GREEN_STEPS \<le> tm t + 1" if "ph (Suc t) \<noteq> ph t" for t
    using updateSignal_SMART_change[OF m, of "roads (after rnd e pos t)"
        "nodeAt (after rnd e pos t) j"] that
    unfolding ph_def tm_def nxt by simp
  have bound: "tm t < MAX_RED_STEPS" for t
  proof (rule timer_bounded[where tm = tm and B = MAX_RED_STEPS])
    show "tm 0 < MAX_RED_STEPS" using a by (simp add: tm_def)
  next
    fix t assume "tm t < MAX_RED_STEPS"
    then show "tm (Suc t) < MAX_RED_STEPS"
      using updateSignal_SMART_bound[OF m, of "nodeAt (after rnd e pos t) j"
          "roads (after rnd e pos t)"]
      unfolding tm_def nxt by simp
  qed
  have ch: "phaseChanged rnd e pos j t = (ph (Suc t) \<noteq> ph t)" for t
    by (simp add: phaseChanged_def ph_def)
  show "\<forall>t. phaseTimer (nodeAt (after rnd e pos t) j) < MAX_RED_STEPS"
    using bound by (simp add: tm_def)
  show "\<forall>t. phaseChanged rnd e pos j t \<longrightarrow>
         phaseTimer (nodeAt (after rnd e pos (Suc t)) j) = 0 \<and>
         MIN_GREEN_STEPS \<le> phaseTimer (nodeAt (after rnd e pos t) j) + 1"
    using change unfolding ch by (simp add: tm_def)
  show "\<forall>t. \<not> phaseChanged rnd e pos j t \<longrightarrow>
         phaseTimer (nodeAt (after rnd e pos (Suc t)) j) =
           phaseTimer (nodeAt (after rnd e pos t) j) + 1"
    using keep unfolding ch by (simp add: tm_def)
  show "\<forall>a b. phaseChanged rnd e pos j a \<and> phaseChanged rnd e pos j b \<and> a < b \<longrightarrow>
         a + MIN_GREEN_STEPS \<le> b"
    unfolding ch using changes_apart[of ph tm MIN_GREEN_STEPS, OF keep change] by blast
  show "\<forall>a. \<exists>b. a \<le> b \<and> b < a + MAX_RED_STEPS \<and> phaseChanged rnd e pos j b"
    unfolding ch using change_within[of ph tm MAX_RED_STEPS, OF keep bound] by blast
next
  assume n: "new_SimulationEngine rws cls rate SMART = Inr e0 \<and> i < length (intersections e0)"
  then show "mode e0 = SMART" using constructed_wf(3) by blast
  from n show "phaseTimer (nodeAt e0 i) = 0" using constructed_node by blast
qed

theorem adaptive_timing_witness:
  "mode (grid12 (7 / 20) SMART) = SMART \<and>
   0 < length (intersections (grid12 (7 / 20) SMART)) \<and>
   phaseTimer (nodeAt (grid12 (7 / 20) SMART) 0) < MAX_RED_STEPS \<and>
   phaseTimer (nodeAt (after (\<lambda>k. 1 / 10) (grid12 (7 / 20) SMART) 0 100) 0) < MAX_RED_STEPS \<and>
   (\<exists>b. 40 \<le> b \<and> b < 40 + MAX_RED_STEPS \<and>
        phaseChanged (\<lambda>k. 1 / 10) (grid12 (7 / 20) SMART) 0 0 b) \<and>
   new_SimulationEngine 1 2 (7 / 20) SMART = Inr (grid12 (7 / 20) SMART) \<and>
   1 < length (intersections (grid12 (7 / 20) SMART)) \<and>
   phaseTimer (nodeAt (grid12 (7 / 20) SMART) 1) = 0"
proof -
  let ?e = "grid12 (7 / 20) SMART"
  have pre: "mode ?e = SMART \<and> 0 < length (intersections ?e) \<and>
             phaseTimer (nodeAt ?e 0) < MAX_RED_STEPS"
    by (simp add: grid12_def nodeAt_def new_Intersection_def MAX_RED_STEPS_def)
  note th = adaptive_timing[of ?e 0 "\<lambda>k. 1 / 10" 0 1 2 "7 / 20" ?e 0,
      THEN conjunct1, THEN mp, OF pre]
  have 1: "phaseTimer (nodeAt (after (\<lambda>k. 1 / 10) ?e 0 100) 0) < MAX_RED_STEPS"
    using th[THEN conjunct1, rule_format, of 100] .
  have 2: "\<exists>b. 40 \<le> b \<and> b < 40 + MAX_RED_STEPS \<and> phaseChanged (\<lambda>k. 1 / 10) ?e 0 0 b"
    using th[THEN conjunct2, THEN conjunct2, THEN conjunct2, THEN conjunct2,
        rule_format, of 40] .
  have len: "1 < length (intersections ?e)"
    by (simp add: grid12_def)
  have 3: "phaseTimer (nodeAt ?e 1) = 0"
    using adaptive_timing[of ?e 0 "\<lambda>k. 1 / 10" 0 1 2 "7 / 20" ?e 1,
      THEN conjunct2, THEN mp, OF conjI[OF new_grid12 len], THEN conjunct2] .
  show ?thesis
    using pre 1 2 3 len new_grid12 by (intro conjI) simp_all
qed

text \<open>
  C10. \<open>step\<close> never reads the flag \<open>isBoundary\<close>: two engines with a well-formed grid (as
  every engine built by the constructor has, after any number of ticks) that differ only
  in the flags of their roads still differ only in these flags after any number of ticks
  with the same draws, and they have made the same number of draws. Whether a road is an
  entry road does not depend on its flag, and \<open>getSnapshot\<close> copies the flag of every
  road.
\<close>

theorem boundary_flag_unused:
  "(wfGrid e1 \<and> eraseBoundary e1 = eraseBoundary e2 \<longrightarrow>
      eraseBoundary (after rnd e1 pos t) = eraseBoundary (after rnd e2 pos t) \<and>
      snd (steps rnd t (e1, pos)) = snd (steps rnd t (e2, pos))) \<and>
   isEntry (r\<lparr>isBoundary := b\<rparr>) n = isEntry r n \<and>
   map isBoundary_data (roads_snap (getSnapshot e)) = map isBoundary (roads e) \<and>
   (new_SimulationEngine rws cls rate m = Inr e0 \<longrightarrow> wfGrid (after rnd e0 pos t))"
proof (intro conjI impI)
  assume a: "wfGrid e1 \<and> eraseBoundary e1 = eraseBoundary e2"
  then have w1: "wfGrid e1" by simp
  have "wfGrid (eraseBoundary e2)" using a wfGrid_eraseBoundary[of e1] by simp
  then have w2: "wfGrid e2" using wfGrid_eraseBoundary[of e2] by simp
  have "steps rnd t (eraseBoundary e1, pos) = steps rnd t (eraseBoundary e2, pos)"
    using a by simp
  then have eq: "(eraseBoundary (fst (steps rnd t (e1, pos))), snd (steps rnd t (e1, pos))) =
             (eraseBoundary (fst (steps rnd t (e2, pos))), snd (steps rnd t (e2, pos)))"
    unfolding steps_eraseBoundary[OF w1] steps_eraseBoundary[OF w2] .
  show "eraseBoundary (after rnd e1 pos t) = eraseBoundary (after rnd e2 pos t)"
    using eq by (simp add: after_def)
  show "snd (steps rnd t (e1, pos)) = snd (steps rnd t (e2, pos))"
    using eq by simp
next
  show "isEntry (r\<lparr>isBoundary := b\<rparr>) n = isEntry r n"
    by (simp add: isEntry_def)
  show "map isBoundary_data (roads_snap (getSnapshot e)) = map isBoundary (roads e)"
    by (rule getSnapshot_flags)
next
  assume "new_SimulationEngine rws cls rate m = Inr e0"
  then show "wfGrid (after rnd e0 pos t)"
    using wfGrid_after constructed_wf(1) by blast
qed

theorem boundary_flag_unused_witness:
  "wfGrid (grid12 (7 / 20) SMART) \<and>
   eraseBoundary (grid12 (7 / 20) SMART) = eraseBoundary (eraseBoundary (grid12 (7 / 20) SMART)) \<and>
   map isBoundary (roads (grid12 (7 / 20) SMART)) = [True, True] \<and>
   map isBoundary (roads (eraseBoundary (grid12 (7 / 20) SMART))) = [False, False] \<and>
   eraseBoundary (after (\<lambda>k. 1 / 10) (grid12 (7 / 20) SMART) 0 50) =
     eraseBoundary (after (\<lambda>k. 1 / 10) (eraseBoundary (grid12 (7 / 20) SMART)) 0 50) \<and>
   new_SimulationEngine 1 2 (7 / 20) SMART = Inr (grid12 (7 / 20) SMART) \<and>
   wfGrid (after (\<lambda>k. 1 / 10) (grid12 (7 / 20) SMART) 0 50)"
proof -
  let ?e = "grid12 (7 / 20) SMART"
  have wf: "wfGrid ?e" using constructed_wf(1)[OF new_grid12] .
  have pre: "wfGrid ?e \<and> eraseBoundary ?e = eraseBoundary (eraseBoundary ?e)"
    using wf by (simp add: eraseBoundary_idem)
  have flags: "map isBoundary (roads ?e) = [True, True]"
    "map isBoundary (roads (eraseBoundary ?e)) = [False, False]"
    by (simp_all add: grid12_def eraseBoundary_def eraseFlag_def new_DirectedRoad_def)
  have run: "eraseBoundary (after (\<lambda>k. 1 / 10) ?e 0 50) =
             eraseBoundary (after (\<lambda>k. 1 / 10) (eraseBoundary ?e) 0 50)"
    using boundary_flag_unused[of ?e "eraseBoundary ?e" "\<lambda>k. 1 / 10" 0 50,
        THEN conjunct1, THEN mp, OF pre, THEN conjunct1] .
  have later: "wfGrid (after (\<lambda>k. 1 / 10) ?e 0 50)"
    using boundary_flag_unused[of ?e ?e "\<lambda>k. 1 / 10" 0 50 _ _ _ _ 1 2 "7 / 20" SMART ?e,
        THEN conjunct2, THEN conjunct2, THEN conjunct2, THEN mp, OF new_grid12] .
  show ?thesis
    by (intro conjI wf pre[THEN conjunct2] flags run new_grid12 later)
qed

end
